theory Spec2Isabelle
  imports Main
begin

section \<open>Values, records and errors\<close>

text \<open>
  The engine of \<^verbatim>\<open>ke2sql/legacy/keemu/base.py\<close> (class \<^verbatim>\<open>KeemuBaseMixin\<close>) reads
  attributes of parser records and builds Python dictionaries. Python values are a
  datatype; a dictionary is an association list in insertion order with one entry per
  key; a raw record is the association list of its attributes.
\<close>

datatype pyval =
    PNone
  | PBool bool
  | PInt int
  | PStr string
  | PList "pyval list"
  | PDict "(string \<times> pyval) list"

datatype error = AttributeError | TypeError | ValueError

type_synonym raw_record = "(string \<times> pyval) list"

type_synonym pydict = "(string \<times> pyval) list"

text \<open>Python's truth value of an object, as \<^verbatim>\<open>if x\<close> and \<^verbatim>\<open>not x\<close> test it.\<close>

fun truthy :: "pyval \<Rightarrow> bool" where
  "truthy PNone = False"
| "truthy (PBool b) = b"
| "truthy (PInt i) = (i \<noteq> 0)"
| "truthy (PStr s) = (s \<noteq> [])"
| "truthy (PList xs) = (xs \<noteq> [])"
| "truthy (PDict d) = (d \<noteq> [])"

text \<open>\<^verbatim>\<open>type(x) != list\<close> is the negation of this test.\<close>

fun is_list :: "pyval \<Rightarrow> bool" where
  "is_list (PList xs) = True"
| "is_list v = False"

text \<open>
  \<^verbatim>\<open>record.name\<close>: a plain attribute read raises AttributeError when the record has no
  such attribute.
\<close>

definition attr :: "raw_record \<Rightarrow> string \<Rightarrow> error + pyval" where
  "attr r name = (case map_of r name of None \<Rightarrow> Inl AttributeError | Some v \<Rightarrow> Inr v)"

text \<open>\<^verbatim>\<open>getattr(record, name, None)\<close>: the read with the default None.\<close>

definition getattr_none :: "raw_record \<Rightarrow> string \<Rightarrow> pyval" where
  "getattr_none r name = (case map_of r name of None \<Rightarrow> PNone | Some v \<Rightarrow> v)"

text \<open>\<^verbatim>\<open>d[k] = v\<close> on a dictionary: the entry of an existing key is replaced in place, a
  new key is appended.\<close>

primrec dict_set :: "'k \<Rightarrow> 'v \<Rightarrow> ('k \<times> 'v) list \<Rightarrow> ('k \<times> 'v) list" where
  "dict_set k v [] = [(k, v)]"
| "dict_set k v (p # ps) = (if fst p = k then (k, v) # ps else p # dict_set k v ps)"

text \<open>
  \<^verbatim>\<open>str.lower()\<close>: the letters A to Z are mapped to a to z, every other byte is kept.
  (A string is a list of bytes here; no byte outside A to Z becomes \<^verbatim>\<open>y\<close>.)
\<close>

definition upper_letters :: string where
  "upper_letters = ''ABCDEFGHIJKLMNOPQRSTUVWXYZ''"

definition lower_letters :: string where
  "lower_letters = ''abcdefghijklmnopqrstuvwxyz''"

definition lower_char :: "char \<Rightarrow> char" where
  "lower_char c =
     (case map_of (zip upper_letters lower_letters) c of None \<Rightarrow> c | Some d \<Rightarrow> d)"

definition lower :: "string \<Rightarrow> string" where
  "lower s = map lower_char s"

section \<open>Admission: the publishability gate\<close>

text \<open>
  \<^verbatim>\<open>_is_web_publishable(record)\<close> is
  \<^verbatim>\<open>record.AdmPublishWebNoPasswordFlag.lower() == 'y'\<close>. The attribute read raises when
  the attribute is missing, and \<^verbatim>\<open>.lower\<close> exists on strings only: on any other value
  the method lookup raises AttributeError.
\<close>

definition is_web_publishable :: "raw_record \<Rightarrow> error + bool" where
  "is_web_publishable r =
     (case attr r ''AdmPublishWebNoPasswordFlag'' of
        Inl e \<Rightarrow> Inl e
      | Inr (PStr s) \<Rightarrow> Inr (lower s = ''y'')
      | Inr _ \<Rightarrow> Inl AttributeError)"

section \<open>Admission: the field filters\<close>

text \<open>
  A filter operator is a Python callable of two arguments: it returns a value, whose
  truth value is tested, or raises. \<^verbatim>\<open>filters\<close> is a dictionary from a field name to a
  list of (operator, comparison value) pairs; it is the list of its items in iteration
  order.
\<close>

type_synonym filter_operator = "pyval \<Rightarrow> pyval \<Rightarrow> error + pyval"

type_synonym filter_rule = "string \<times> (filter_operator \<times> pyval) list"

text \<open>The inner loop of \<^verbatim>\<open>_apply_filters\<close>: \<open>Inr False\<close> is its \<^verbatim>\<open>return False\<close>,
  \<open>Inr True\<close> is the loop running to its end.\<close>

fun check_pairs :: "pyval \<Rightarrow> (filter_operator \<times> pyval) list \<Rightarrow> error + bool" where
  "check_pairs v [] = Inr True"
| "check_pairs v ((filter_operator, filter_value) # ps) =
     (case filter_operator v filter_value of
        Inl e \<Rightarrow> Inl e
      | Inr res \<Rightarrow> if \<not> truthy res then Inr False else check_pairs v ps)"

text \<open>The outer loop: \<^verbatim>\<open>value = getattr(record, field, None)\<close>, then the inner loop.\<close>

fun apply_filters_loop :: "filter_rule list \<Rightarrow> raw_record \<Rightarrow> error + bool" where
  "apply_filters_loop [] r = Inr True"
| "apply_filters_loop ((field, flts) # rest) r =
     (case check_pairs (getattr_none r field) flts of
        Inl e \<Rightarrow> Inl e
      | Inr False \<Rightarrow> Inr False
      | Inr True \<Rightarrow> apply_filters_loop rest r)"

section \<open>The task: parameters, class attributes and what the constructor derives\<close>

text \<open>
  \<^verbatim>\<open>date\<close> and \<^verbatim>\<open>limit\<close> are the task's parameters (\<^verbatim>\<open>limit\<close> defaults to None);
  \<^verbatim>\<open>module_name\<close> (here \<open>module_nm\<close>), \<^verbatim>\<open>fields\<close> (here \<open>field_list\<close>), \<^verbatim>\<open>columns\<close>
  and \<^verbatim>\<open>filters\<close> are what a concrete module declares.
\<close>

record config =
  module_nm :: string
  field_list :: "(string \<times> string) list"
  columns :: "(string \<times> string) list"
  filters :: "filter_rule list"
  date :: int
  limit :: "int option"

text \<open>
  \<^verbatim>\<open>task_id_str\<close> and the serialisation of a parameter value belong to the luigi
  library, which is no part of the repository: the model takes both as parameters.
\<close>

record luigi =
  task_id_str :: "string \<Rightarrow> (string \<times> string) list \<Rightarrow> string"
  serialize :: "pyval \<Rightarrow> string"

text \<open>The instance: its configuration, the attributes \<^verbatim>\<open>__init__\<close> sets and the two
  counters.\<close>

record task =
  cfg :: config
  columns_dict :: "(string \<times> string) list"
  property_fields :: "(string \<times> string) list"
  metadata_fields :: "(string \<times> string) list"
  array_fields :: "string list"
  task_id :: string
  record_count :: int
  insert_count :: int

text \<open>The property \<^verbatim>\<open>table\<close>: the module name.\<close>

definition table :: "config \<Rightarrow> string" where
  "table c = module_nm c"

text \<open>\<^verbatim>\<open>dict(pairs)\<close>: the pairs are stored one after the other.\<close>

definition dict_of :: "('k \<times> 'v) list \<Rightarrow> ('k \<times> 'v) list" where
  "dict_of xs = foldl (\<lambda>d (k, v). dict_set k v d) [] xs"

text \<open>
  The loop of \<^verbatim>\<open>__init__\<close> over \<^verbatim>\<open>self.fields\<close>: a field whose alias is a key of
  \<^verbatim>\<open>columns_dict\<close> is appended to the metadata fields, any other to the property fields.
  The accumulator is the pair (property fields, metadata fields).
\<close>

fun classify_fields ::
  "(string \<times> string) list \<Rightarrow> (string \<times> string) list \<Rightarrow>
   (string \<times> string) list \<times> (string \<times> string) list \<Rightarrow>
   (string \<times> string) list \<times> (string \<times> string) list" where
  "classify_fields cd [] (props, metas) = (props, metas)"
| "classify_fields cd (field # rest) (props, metas) =
     (if snd field \<in> set (map fst cd)
      then classify_fields cd rest (props, metas @ [field])
      else classify_fields cd rest (props @ [field], metas))"

section \<open>Column types\<close>

text \<open>\<^verbatim>\<open>'[]' in col_def\<close>: the substring test.\<close>

fun starts_with :: "string \<Rightarrow> string \<Rightarrow> bool" where
  "starts_with s [] = True"
| "starts_with [] (p # ps) = False"
| "starts_with (c # cs) (p # ps) = (c = p \<and> starts_with cs ps)"

fun str_contains :: "string \<Rightarrow> string \<Rightarrow> bool" where
  "str_contains [] sub = (sub = [])"
| "str_contains (c # cs) sub = (starts_with (c # cs) sub \<or> str_contains cs sub)"

definition column_is_array :: "string \<Rightarrow> bool" where
  "column_is_array col_def = str_contains col_def ''[]''"

text \<open>
  The regular expression \<^verbatim>\<open>(^[A-Z]+(\[\])?)\<close> matched at the start of a column
  definition, and its group 1: the longest run of letters A to Z, which must not be
  empty, and the two characters \<^verbatim>\<open>[]\<close> when they follow at once. Without a match
  \<^verbatim>\<open>regex.match\<close> returns None.
\<close>

definition is_upper :: "char \<Rightarrow> bool" where
  "is_upper c = (c \<in> set upper_letters)"

definition regex_match :: "string \<Rightarrow> string option" where
  "regex_match column_def =
     (let letters = takeWhile is_upper column_def;
          rest = dropWhile is_upper column_def
      in if letters = [] then None
         else Some (letters @ (if starts_with rest ''[]'' then ''[]'' else [])))"

text \<open>
  \<^verbatim>\<open>get_column_types\<close>: the list comprehension over \<^verbatim>\<open>self.columns\<close>. On a definition
  the expression does not match, \<^verbatim>\<open>.group\<close> is called on None and raises.
\<close>

fun get_column_types :: "(string \<times> string) list \<Rightarrow> error + (string \<times> string) list" where
  "get_column_types [] = Inr []"
| "get_column_types ((column_name, column_def) # rest) =
     (case regex_match column_def of
        None \<Rightarrow> Inl AttributeError
      | Some g \<Rightarrow>
          (case get_column_types rest of
             Inl e \<Rightarrow> Inl e
           | Inr cts \<Rightarrow> Inr ((column_name, g) # cts)))"

section \<open>The task identity and the constructor\<close>

text \<open>
  The parameters as the class declares them: name, significance, value. \<^verbatim>\<open>date\<close> is
  significant (the default), \<^verbatim>\<open>limit\<close> is declared \<^verbatim>\<open>significant=False\<close>.
  \<^verbatim>\<open>to_str_params(only_significant)\<close> serialises the parameters, the significant ones
  only when asked so.
\<close>

definition params :: "config \<Rightarrow> (string \<times> bool \<times> pyval) list" where
  "params c =
     [(''date'', True, PInt (date c)),
      (''limit'', False, (case limit c of None \<Rightarrow> PNone | Some n \<Rightarrow> PInt n))]"

definition to_str_params :: "luigi \<Rightarrow> config \<Rightarrow> bool \<Rightarrow> (string \<times> string) list" where
  "to_str_params lib c only_significant =
     map (\<lambda>(name, significant, v). (name, serialize lib v))
       (filter (\<lambda>(name, significant, v). \<not> only_significant \<or> significant) (params c))"

definition init :: "luigi \<Rightarrow> config \<Rightarrow> error + task" where
  "init lib c =
     (let cd = dict_of (columns c);
          (props, metas) = classify_fields cd (field_list c) ([], [])
      in case get_column_types (columns c) of
           Inl e \<Rightarrow> Inl e
         | Inr cts \<Rightarrow>
             Inr \<lparr>cfg = c,
                  columns_dict = cd,
                  property_fields = props,
                  metadata_fields = metas,
                  array_fields = map fst (filter (\<lambda>(col_name, col_def). column_is_array col_def) cts),
                  task_id = task_id_str lib (table c) (to_str_params lib c True),
                  record_count = 0,
                  insert_count = 0\<rparr>)"

section \<open>Transforming a record\<close>

text \<open>\<^verbatim>\<open>get_properties\<close>: the dictionary comprehension over the property fields, with its
  condition \<^verbatim>\<open>if getattr(record, ke_field, None)\<close>.\<close>

definition get_properties :: "task \<Rightarrow> raw_record \<Rightarrow> pydict" where
  "get_properties t r =
     foldl (\<lambda>d (ke_field, dataset_field).
              if truthy (getattr_none r ke_field)
              then dict_set dataset_field (getattr_none r ke_field) d else d)
       [] (property_fields t)"

text \<open>
  The body of the loop of \<^verbatim>\<open>record_to_dict\<close> over the metadata fields. The value the
  condition reads back from \<^verbatim>\<open>record_dict[alias]\<close> is the value just stored.
\<close>

definition set_metadata :: "task \<Rightarrow> raw_record \<Rightarrow> pydict \<Rightarrow> string \<times> string \<Rightarrow> pydict" where
  "set_metadata t r record_dict =
     (\<lambda>(ke_field, alias).
        let v = getattr_none r ke_field;
            d = dict_set alias v record_dict
        in if truthy v \<and> alias \<in> set (array_fields t) \<and> \<not> is_list v
           then dict_set alias (PList [v]) d else d)"

text \<open>\<^verbatim>\<open>record_to_dict\<close>: \<^verbatim>\<open>record.irn\<close> is a plain attribute read and raises on a record
  without \<^verbatim>\<open>irn\<close>.\<close>

definition record_to_dict :: "task \<Rightarrow> raw_record \<Rightarrow> error + pydict" where
  "record_to_dict t r =
     (case attr r ''irn'' of
        Inl e \<Rightarrow> Inl e
      | Inr irn \<Rightarrow>
          Inr (foldl (set_metadata t r)
                 [(''irn'', irn),
                  (''properties'', PDict (get_properties t r)),
                  (''import_date'', PInt (date (cfg t)))]
                 (metadata_fields t)))"

section \<open>The stream of records\<close>

definition apply_filters :: "task \<Rightarrow> raw_record \<Rightarrow> error + bool" where
  "apply_filters t r = apply_filters_loop (filters (cfg t)) r"

text \<open>The condition of \<^verbatim>\<open>records\<close>:
  \<^verbatim>\<open>self._is_web_publishable(record) and self._apply_filters(record)\<close>. The filters are
  called only when the first operand is true.\<close>

definition admitted :: "task \<Rightarrow> raw_record \<Rightarrow> error + bool" where
  "admitted t r =
     (case is_web_publishable r of
        Inl e \<Rightarrow> Inl e
      | Inr False \<Rightarrow> Inr False
      | Inr True \<Rightarrow> apply_filters t r)"

text \<open>\<^verbatim>\<open>self.limit and self.record_count >= self.limit\<close>: None and 0 are false.\<close>

definition limit_reached :: "task \<Rightarrow> bool" where
  "limit_reached t =
     (case limit (cfg t) of None \<Rightarrow> False | Some n \<Rightarrow> n \<noteq> 0 \<and> record_count t \<ge> n)"

text \<open>
  What \<^verbatim>\<open>records\<close> does to the outside, in order: a row it yields, or a call of the
  abstract method \<^verbatim>\<open>delete_record\<close> on a record.
\<close>

datatype event = Yield pydict | Delete raw_record

definition emit :: "event \<Rightarrow> event list \<times> task \<times> error option \<Rightarrow> event list \<times> task \<times> error option" where
  "emit ev res = (case res of (evs, t, err) \<Rightarrow> (ev # evs, t, err))"

text \<open>
  The generator \<^verbatim>\<open>records\<close>, consumed to its end, over the records the parser yields.
  The result is the events, the instance with its counters as they are left, and the
  exception that ended the loop, if one did. The loop has no exception handler: an
  exception raised in its body leaves the generator. (The log calls and the clock are
  left out: they change nothing the loop reads.)
\<close>

fun records :: "task \<Rightarrow> raw_record list \<Rightarrow> event list \<times> task \<times> error option" where
  "records t [] = ([], t, None)"
| "records t (r # rs) =
     (let t1 = t\<lparr>record_count := record_count t + 1\<rparr> in
      case admitted t1 r of
        Inl e \<Rightarrow> ([], t1, Some e)
      | Inr True \<Rightarrow>
          (let t2 = t1\<lparr>insert_count := insert_count t1 + 1\<rparr> in
           case record_to_dict t2 r of
             Inl e \<Rightarrow> ([], t2, Some e)
           | Inr row \<Rightarrow>
               emit (Yield row)
                 (if limit_reached t2 then ([], t2, None) else records t2 rs))
      | Inr False \<Rightarrow>
          emit (Delete r)
            (if limit_reached t1 then ([], t1, None) else records t1 rs))"

section \<open>Indexes\<close>

text \<open>
  \<^verbatim>\<open>ensure_indexes\<close> executes one statement per column of \<^verbatim>\<open>get_column_types()\<close>
  other than \<^verbatim>\<open>irn\<close> and \<^verbatim>\<open>properties\<close>. A statement is kept as the three arguments of
  the format call (table, index type, column name); \<open>render\<close> is the text executed.
\<close>

datatype statement = CreateIndex string string string

fun render :: "statement \<Rightarrow> string" where
  "render (CreateIndex tbl idx_type col_name) =
     ''CREATE INDEX ON '' @ tbl @ '' USING '' @ idx_type @ '' ('' @ col_name @ '')''"

fun index_statements :: "string \<Rightarrow> (string \<times> string) list \<Rightarrow> statement list" where
  "index_statements tbl [] = []"
| "index_statements tbl ((col_name, col_def) # rest) =
     (if col_name \<in> set [''irn'', ''properties'']
      then index_statements tbl rest
      else CreateIndex tbl (if column_is_array col_def then ''GIN'' else ''BTREE'') col_name
             # index_statements tbl rest)"

definition ensure_indexes :: "task \<Rightarrow> error + statement list" where
  "ensure_indexes t =
     (case get_column_types (columns (cfg t)) of
        Inl e \<Rightarrow> Inl e
      | Inr cts \<Rightarrow> Inr (index_statements (table (cfg t)) cts))"

section \<open>An example module\<close>

text \<open>
  A module in the style of the catalogue module, two operators and a few records, on which
  the theorems below are evaluated. \<open>example_luigi\<close> is a stand-in for the library, not
  luigi's own functions (luigi's task identity also carries a hash of the parameters, and
  an integer is serialised as its digits): it joins the table name and the serialised
  parameters, which is enough to evaluate a theorem that holds for every library.
\<close>

definition py_equals :: filter_operator where
  "py_equals v w = Inr (PBool (v = w))"

definition py_raises :: filter_operator where
  "py_raises v w = Inl TypeError"

definition example_luigi :: luigi where
  "example_luigi =
     \<lparr>task_id_str = (\<lambda>family ps. family @ concat (map (\<lambda>(k, v). CHR ''_'' # v) ps)),
      serialize = (\<lambda>v. if v = PNone then ''None'' else ''20240101'')\<rparr>"

definition example_config :: config where
  "example_config =
     \<lparr>module_nm = ''catalogue'',
      field_list = [(''LocLocation'', ''locations''), (''ColNote'', ''collector_note'')],
      columns =
        [(''irn'', ''INTEGER PRIMARY KEY''),
         (''created'', ''TIMESTAMP DEFAULT CURRENT_TIMESTAMP''),
         (''modified'', ''TIMESTAMP''),
         (''deleted'', ''TIMESTAMP''),
         (''properties'', ''JSONB''),
         (''import_date'', ''INTEGER''),
         (''locations'', ''TEXT[]'')],
      filters = [(''status'', [(py_equals, PStr ''verified'')])],
      date = 20240101,
      limit = None\<rparr>"

definition example_task :: task where
  "example_task =
     \<lparr>cfg = example_config,
      columns_dict = columns example_config,
      property_fields = [(''ColNote'', ''collector_note'')],
      metadata_fields = [(''LocLocation'', ''locations'')],
      array_fields = [''locations''],
      task_id = ''catalogue_20240101'',
      record_count = 0,
      insert_count = 0\<rparr>"

definition rec_verified :: raw_record where
  "rec_verified =
     [(''irn'', PInt 1),
      (''AdmPublishWebNoPasswordFlag'', PStr ''Y''),
      (''status'', PStr ''verified''),
      (''LocLocation'', PStr ''Room 3''),
      (''ColNote'', PStr ''rare specimen'')]"

definition rec_draft :: raw_record where
  "rec_draft =
     [(''irn'', PInt 2),
      (''AdmPublishWebNoPasswordFlag'', PStr ''y''),
      (''status'', PStr ''draft'')]"

definition rec_no_flag :: raw_record where
  "rec_no_flag = [(''irn'', PInt 3), (''status'', PStr ''verified'')]"

definition rec_no_irn :: raw_record where
  "rec_no_irn =
     [(''AdmPublishWebNoPasswordFlag'', PStr ''y''), (''status'', PStr ''verified'')]"

text \<open>A module whose filters go on with operators that raise, and a record that is not
  publishable.\<close>

definition strict_config :: config where
  "strict_config =
     example_config
       \<lparr>filters :=
          [(''status'', [(py_equals, PStr ''verified''), (py_raises, PNone)]),
           (''other'', [(py_raises, PNone)])]\<rparr>"

definition strict_task :: task where
  "strict_task = example_task\<lparr>cfg := strict_config\<rparr>"

definition rec_unpublished :: raw_record where
  "rec_unpublished =
     [(''irn'', PInt 4),
      (''AdmPublishWebNoPasswordFlag'', PStr ''N''),
      (''status'', PStr ''verified'')]"

definition rec_no_status :: raw_record where
  "rec_no_status = [(''irn'', PInt 5), (''AdmPublishWebNoPasswordFlag'', PStr ''y'')]"

text \<open>Records whose mapped fields hold an empty string and a zero, and a module with a
  column of a parameterised array type.\<close>

definition rec_empty_location :: raw_record where
  "rec_empty_location =
     [(''irn'', PInt 6),
      (''AdmPublishWebNoPasswordFlag'', PStr ''y''),
      (''status'', PStr ''verified''),
      (''LocLocation'', PStr [])]"

definition rec_zero_note :: raw_record where
  "rec_zero_note =
     [(''irn'', PInt 7),
      (''AdmPublishWebNoPasswordFlag'', PStr ''y''),
      (''status'', PStr ''verified''),
      (''ColNote'', PInt 0)]"

definition varchar_config :: config where
  "varchar_config =
     example_config
       \<lparr>field_list := [(''LocLocation'', ''locations''), (''TagName'', ''tags'')],
        columns :=
          [(''irn'', ''INTEGER PRIMARY KEY''),
           (''properties'', ''JSONB''),
           (''locations'', ''TEXT[]''),
           (''tags'', ''VARCHAR(10)[]'')]\<rparr>"

definition varchar_task :: task where
  "varchar_task =
     \<lparr>cfg = varchar_config,
      columns_dict = columns varchar_config,
      property_fields = [],
      metadata_fields = [(''LocLocation'', ''locations''), (''TagName'', ''tags'')],
      array_fields = [''locations''],
      task_id = ''catalogue_20240101'',
      record_count = 0,
      insert_count = 0\<rparr>"

definition rec_tagged :: raw_record where
  "rec_tagged =
     [(''irn'', PInt 8),
      (''AdmPublishWebNoPasswordFlag'', PStr ''y''),
      (''status'', PStr ''verified''),
      (''TagName'', PStr ''type specimen'')]"

declare records.simps [simp del]

section \<open>Dictionaries and the constructor\<close>

lemma map_of_dict_set: "map_of (dict_set k v d) = (map_of d)(k \<mapsto> v)"
  by (induction d) (auto simp: fun_eq_iff)

lemma keys_dict_set: "fst ` set (dict_set k v d) = insert k (fst ` set d)"
  by (induction d) auto

lemma distinct_dict_set: "distinct (map fst d) \<Longrightarrow> distinct (map fst (dict_set k v d))"
  by (induction d) (auto simp: keys_dict_set)

lemma keys_dict_of_acc:
  "fst ` set (foldl (\<lambda>d (k, v). dict_set k v d) acc xs) = fst ` set acc \<union> fst ` set xs"
proof (induction xs arbitrary: acc)
  case Nil
  show ?case by simp
next
  case (Cons x xs)
  obtain k v where x: "x = (k, v)" by (cases x)
  show ?case by (simp add: x Cons.IH keys_dict_set)
qed

lemma keys_dict_of: "fst ` set (dict_of xs) = fst ` set xs"
  by (simp add: dict_of_def keys_dict_of_acc)

lemma classify_fields_filter:
  "classify_fields cd fs (props, metas) =
     (props @ filter (\<lambda>f. snd f \<notin> fst ` set cd) fs, metas @ filter (\<lambda>f. snd f \<in> fst ` set cd) fs)"
  by (induction fs arbitrary: props metas) auto

lemma init_fields:
  assumes "init lib c = Inr t"
  shows "metadata_fields t = filter (\<lambda>f. snd f \<in> fst ` set (columns c)) (field_list c)"
    and "property_fields t = filter (\<lambda>f. snd f \<notin> fst ` set (columns c)) (field_list c)"
    and "cfg t = c" and "record_count t = 0"
    and "task_id t = task_id_str lib (table c) (to_str_params lib c True)"
  using assms
  by (auto simp: init_def Let_def classify_fields_filter keys_dict_of split: sum.splits prod.splits)

lemma admitted_counters [simp]:
  "admitted (t\<lparr>record_count := a\<rparr>) r = admitted t r"
  "admitted (t\<lparr>insert_count := b\<rparr>) r = admitted t r"
  by (simp_all add: admitted_def apply_filters_def split: sum.splits bool.splits)

lemma get_properties_counters [simp]:
  "get_properties (t\<lparr>record_count := a\<rparr>) r = get_properties t r"
  "get_properties (t\<lparr>insert_count := b\<rparr>) r = get_properties t r"
  by (simp_all add: get_properties_def)

lemma set_metadata_counters [simp]:
  "set_metadata (t\<lparr>record_count := a\<rparr>) r = set_metadata t r"
  "set_metadata (t\<lparr>insert_count := b\<rparr>) r = set_metadata t r"
  by (simp_all add: set_metadata_def fun_eq_iff)

lemma record_to_dict_counters [simp]:
  "record_to_dict (t\<lparr>record_count := a\<rparr>) r = record_to_dict t r"
  "record_to_dict (t\<lparr>insert_count := b\<rparr>) r = record_to_dict t r"
  by (simp_all add: record_to_dict_def split: sum.splits)

lemma emit_task: "fst (snd (emit ev res)) = fst (snd res)"
  by (simp add: emit_def split: prod.splits)

lemma records_frame:
  "cfg (fst (snd (records t rs))) = cfg t \<and>
   columns_dict (fst (snd (records t rs))) = columns_dict t \<and>
   property_fields (fst (snd (records t rs))) = property_fields t \<and>
   metadata_fields (fst (snd (records t rs))) = metadata_fields t \<and>
   array_fields (fst (snd (records t rs))) = array_fields t \<and>
   task_id (fst (snd (records t rs))) = task_id t"
proof (induction rs arbitrary: t)
  case Nil
  show ?case by (simp add: records.simps)
next
  case (Cons r rs)
  let ?t1 = "t\<lparr>record_count := record_count t + 1\<rparr>"
  let ?t2 = "?t1\<lparr>insert_count := insert_count ?t1 + 1\<rparr>"
  note h1 = Cons.IH[of ?t1] and h2 = Cons.IH[of ?t2]
  show ?case
    using h1 h2
    by (simp add: records.simps Let_def emit_task split: sum.splits bool.splits)
qed

section \<open>The example module, evaluated\<close>

lemma lower_char_y: "lower_char c = CHR ''y'' \<longleftrightarrow> c = CHR ''y'' \<or> c = CHR ''Y''"
  by (simp add: lower_char_def upper_letters_def lower_letters_def)

lemma lower_eq_y: "lower s = ''y'' \<longleftrightarrow> s = ''y'' \<or> s = ''Y''"
  by (cases s) (auto simp: lower_def lower_char_y)

lemma is_upper_simps: "is_upper c = (c \<in> set ''ABCDEFGHIJKLMNOPQRSTUVWXYZ'')"
  by (simp add: is_upper_def upper_letters_def)

lemma example_init: "init example_luigi example_config = Inr example_task"
  by (simp add: init_def example_luigi_def example_config_def example_task_def dict_of_def
      regex_match_def is_upper_simps column_is_array_def table_def to_str_params_def
      params_def Let_def)

lemma example_init_limit:
  "init example_luigi (example_config\<lparr>limit := Some 10\<rparr>) =
     Inr (example_task\<lparr>cfg := example_config\<lparr>limit := Some 10\<rparr>\<rparr>)"
  by (simp add: init_def example_luigi_def example_config_def example_task_def dict_of_def
      regex_match_def is_upper_simps column_is_array_def table_def to_str_params_def
      params_def Let_def)

lemmas example_defs =
  example_task_def example_config_def rec_verified_def rec_draft_def rec_no_flag_def
  rec_no_irn_def py_equals_def py_raises_def strict_config_def strict_task_def
  rec_unpublished_def rec_no_status_def rec_empty_location_def rec_zero_note_def
  varchar_config_def varchar_task_def rec_tagged_def

lemmas eval_defs =
  records.simps admitted_def apply_filters_def is_web_publishable_def attr_def
  getattr_none_def record_to_dict_def get_properties_def set_metadata_def
  limit_reached_def emit_def lower_eq_y Let_def

section \<open>The publishability gate\<close>

text \<open>On a string flag the gate answers, and it answers true exactly on \<^verbatim>\<open>y\<close> and
  \<^verbatim>\<open>Y\<close>.\<close>

lemma is_web_publishable_str:
  "map_of r ''AdmPublishWebNoPasswordFlag'' = Some (PStr s) \<Longrightarrow>
   is_web_publishable r = Inr (s = ''y'' \<or> s = ''Y'')"
  by (simp add: is_web_publishable_def attr_def lower_eq_y)

text \<open>Without the flag, and on a flag that is no string, the gate raises.\<close>

lemma is_web_publishable_absent:
  "map_of r ''AdmPublishWebNoPasswordFlag'' = None \<Longrightarrow>
   is_web_publishable r = Inl AttributeError"
  by (simp add: is_web_publishable_def attr_def)

lemma is_web_publishable_no_string:
  "map_of r ''AdmPublishWebNoPasswordFlag'' = Some v \<Longrightarrow> (\<And>s. v \<noteq> PStr s) \<Longrightarrow>
   is_web_publishable r = Inl AttributeError"
  by (cases v) (auto simp: is_web_publishable_def attr_def)

text \<open>
  C1. The claim: a record whose web-publishable flag is absent is rejected, and that is
  no error. The code reads the flag with a plain attribute access: on a record without
  the flag \<^verbatim>\<open>_is_web_publishable\<close> raises AttributeError instead of returning False, and
  the exception ends \<^verbatim>\<open>records\<close> before the record is deleted and before the next
  record is read.
\<close>

theorem publishable_absent_flag_raises:
  "is_web_publishable rec_no_flag = Inl AttributeError \<and>
   records example_task [rec_no_flag, rec_verified] =
     ([], example_task\<lparr>record_count := 1\<rparr>, Some AttributeError)"
  by (simp add: example_defs eval_defs)

section \<open>The partition of the field mappings\<close>

text \<open>
  C9. Of a module that was constructed, the metadata fields are the declared field
  mappings whose alias is a declared column name and the property fields are the others,
  each in the declared order: every declared mapping is in exactly one of the two lists,
  as often as it is declared. Processing records leaves both lists as they are.
\<close>

theorem field_partition:
  assumes "init lib c = Inr t"
  shows "metadata_fields t = filter (\<lambda>f. snd f \<in> fst ` set (columns c)) (field_list c) \<and>
         property_fields t = filter (\<lambda>f. snd f \<notin> fst ` set (columns c)) (field_list c) \<and>
         set (metadata_fields t) \<union> set (property_fields t) = set (field_list c) \<and>
         set (metadata_fields t) \<inter> set (property_fields t) = {} \<and>
         length (metadata_fields t) + length (property_fields t) = length (field_list c) \<and>
         metadata_fields (fst (snd (records t rs))) = metadata_fields t \<and>
         property_fields (fst (snd (records t rs))) = property_fields t"
proof -
  note m = init_fields(1)[OF assms] and p = init_fields(2)[OF assms]
  have u: "set (metadata_fields t) \<union> set (property_fields t) = set (field_list c)"
    unfolding m p by auto
  have i: "set (metadata_fields t) \<inter> set (property_fields t) = {}"
    unfolding m p by auto
  have l: "length (metadata_fields t) + length (property_fields t) = length (field_list c)"
    unfolding m p by (rule sum_length_filter_compl)
  show ?thesis using m p u i l records_frame[of t rs] by simp
qed

theorem field_partition_witness:
  "init example_luigi example_config = Inr example_task \<and>
   metadata_fields example_task = [(''LocLocation'', ''locations'')] \<and>
   property_fields example_task = [(''ColNote'', ''collector_note'')] \<and>
   set (metadata_fields example_task) \<union> set (property_fields example_task) =
     set (field_list example_config) \<and>
   set (metadata_fields example_task) \<inter> set (property_fields example_task) = {} \<and>
   metadata_fields (fst (snd (records example_task [rec_verified, rec_draft]))) =
     metadata_fields example_task"
  using field_partition[OF example_init, of "[rec_verified, rec_draft]"] example_init
  by (simp add: example_task_def example_config_def)

section \<open>The task identity\<close>

text \<open>
  C7. Two tasks constructed for the same module name and the same date have the same
  task identity, whatever their limits are: the identity is the library's identity
  string of the table name and the serialised date alone.
\<close>

theorem task_identity:
  assumes "init lib c1 = Inr t1" and "init lib c2 = Inr t2"
    and "module_nm c1 = module_nm c2" and "date c1 = date c2"
  shows "task_id t1 =
           task_id_str lib (module_nm c1) [(''date'', serialize lib (PInt (date c1)))] \<and>
         task_id t1 = task_id t2"
  using init_fields(5)[OF assms(1)] init_fields(5)[OF assms(2)] assms(3,4)
  by (simp add: table_def to_str_params_def params_def)

theorem task_identity_witness:
  "limit example_config \<noteq> limit (example_config\<lparr>limit := Some 10\<rparr>) \<and>
   task_id example_task =
     task_id (example_task\<lparr>cfg := example_config\<lparr>limit := Some 10\<rparr>\<rparr>) \<and>
   task_id example_task = ''catalogue_20240101''"
  using task_identity[OF example_init example_init_limit]
  by (simp add: example_config_def example_task_def)

section \<open>The loop over the records\<close>

lemma emit_parts:
  "fst (emit ev res) = ev # fst res"
  "fst (snd (emit ev res)) = fst (snd res)"
  "snd (snd (emit ev res)) = snd (snd res)"
  by (simp_all add: emit_def split: prod.splits)

lemma emit_eq: "emit ev res = (evs, t', err) \<longleftrightarrow> (\<exists>evs'. evs = ev # evs' \<and> res = (evs', t', err))"
  by (cases res) (auto simp: emit_def)

lemma limit_reached_insert_count [simp]:
  "limit_reached (t\<lparr>insert_count := b\<rparr>) = limit_reached t"
  by (simp add: limit_reached_def split: option.splits)

lemma records_Cons:
  "records t (r # rs) =
     (case admitted t r of
        Inl e \<Rightarrow> ([], t\<lparr>record_count := record_count t + 1\<rparr>, Some e)
      | Inr True \<Rightarrow>
          (case record_to_dict t r of
             Inl e \<Rightarrow>
               ([], t\<lparr>record_count := record_count t + 1, insert_count := insert_count t + 1\<rparr>,
                Some e)
           | Inr row \<Rightarrow>
               emit (Yield row)
                 (if limit_reached (t\<lparr>record_count := record_count t + 1\<rparr>)
                  then ([], t\<lparr>record_count := record_count t + 1,
                               insert_count := insert_count t + 1\<rparr>, None)
                  else records (t\<lparr>record_count := record_count t + 1,
                                  insert_count := insert_count t + 1\<rparr>) rs))
      | Inr False \<Rightarrow>
          emit (Delete r)
            (if limit_reached (t\<lparr>record_count := record_count t + 1\<rparr>)
             then ([], t\<lparr>record_count := record_count t + 1\<rparr>, None)
             else records (t\<lparr>record_count := record_count t + 1\<rparr>) rs))"
  by (simp add: records.simps Let_def split: sum.splits bool.splits)

text \<open>What one record does: the event of a record the loop body completes on.\<close>

lemma records_events:
  "records t rs = (evs, t', err) \<Longrightarrow>
   list_all2
     (\<lambda>r ev. (admitted t r = Inr False \<and> ev = Delete r) \<or>
             (admitted t r = Inr True \<and> (\<exists>row. record_to_dict t r = Inr row \<and> ev = Yield row)))
     (take (length evs) rs) evs \<and>
   length evs + (if err = None then 0 else 1) \<le> length rs \<and>
   record_count t' = record_count t + int (length evs) + (if err = None then 0 else 1)"
proof (induction rs arbitrary: t evs t' err)
  case Nil
  then show ?case by (simp add: records.simps)
next
  case (Cons r rs)
  let ?t1 = "t\<lparr>record_count := record_count t + 1\<rparr>"
  let ?t2 = "t\<lparr>record_count := record_count t + 1, insert_count := insert_count t + 1\<rparr>"
  show ?case
  proof (cases "admitted t r")
    case (Inl e)
    with Cons.prems show ?thesis by (auto simp: records_Cons)
  next
    case (Inr b)
    show ?thesis
    proof (cases b)
      case False
      with Inr Cons.prems obtain evs' where
        evs: "evs = Delete r # evs'" and
        rest: "(if limit_reached ?t1 then ([], ?t1, None) else records ?t1 rs) = (evs', t', err)"
        by (auto simp: records_Cons emit_eq)
      show ?thesis
      proof (cases "limit_reached ?t1")
        case True
        with rest evs Inr False show ?thesis by auto
      next
        case nr: False
        with rest have "records ?t1 rs = (evs', t', err)" by simp
        from Cons.IH[OF this] evs Inr False show ?thesis by auto
      qed
    next
      case True
      show ?thesis
      proof (cases "record_to_dict t r")
        case (Inl e)
        with Inr True Cons.prems show ?thesis by (auto simp: records_Cons)
      next
        case row: (Inr row)
        with Inr True Cons.prems obtain evs' where
          evs: "evs = Yield row # evs'" and
          rest: "(if limit_reached ?t1 then ([], ?t2, None) else records ?t2 rs) = (evs', t', err)"
          by (auto simp: records_Cons emit_eq)
        show ?thesis
        proof (cases "limit_reached ?t1")
          case lr: True
          with rest evs Inr True row show ?thesis by auto
        next
          case nr: False
          with rest have "records ?t2 rs = (evs', t', err)" by simp
          from Cons.IH[OF this] evs Inr True row show ?thesis by auto
        qed
      qed
    qed
  qed
qed

lemma set_metadata_cfg [simp]: "set_metadata (t\<lparr>cfg := c\<rparr>) = set_metadata t"
  by (simp add: set_metadata_def fun_eq_iff)

lemma get_properties_cfg [simp]: "get_properties (t\<lparr>cfg := c\<rparr>) = get_properties t"
  by (simp add: get_properties_def fun_eq_iff)

lemma admitted_cfg:
  "filters c' = filters (cfg t) \<Longrightarrow> admitted (t\<lparr>cfg := c'\<rparr>) r = admitted t r"
  by (simp add: admitted_def apply_filters_def split: sum.splits bool.splits)

lemma record_to_dict_cfg:
  "date c' = date (cfg t) \<Longrightarrow> record_to_dict (t\<lparr>cfg := c'\<rparr>) r = record_to_dict t r"
  by (simp add: record_to_dict_def split: sum.splits)

lemma records_no_limit:
  "limit (cfg t) = None \<or> limit (cfg t) = Some 0 \<Longrightarrow> records t rs = (evs, t', None) \<Longrightarrow>
   length evs = length rs"
proof (induction rs arbitrary: t evs)
  case Nil
  then show ?case by (simp add: records.simps)
next
  case (Cons r rs)
  have nl: "\<And>a b. \<not> limit_reached (t\<lparr>record_count := a\<rparr>)"
    using Cons.prems(1) by (auto simp: limit_reached_def)
  have l1: "limit (cfg (t\<lparr>record_count := record_count t + 1\<rparr>)) = None \<or>
            limit (cfg (t\<lparr>record_count := record_count t + 1\<rparr>)) = Some 0"
    using Cons.prems(1) by simp
  have l2: "limit (cfg (t\<lparr>record_count := record_count t + 1, insert_count := insert_count t + 1\<rparr>)) = None \<or>
            limit (cfg (t\<lparr>record_count := record_count t + 1, insert_count := insert_count t + 1\<rparr>)) = Some 0"
    using Cons.prems(1) by simp
  show ?case
    using Cons.prems(2) Cons.IH[OF l1] Cons.IH[OF l2]
    by (auto simp: records_Cons nl emit_eq split: sum.splits bool.splits)
qed

lemma limit_reached_None: "limit (cfg u) = None \<Longrightarrow> \<not> limit_reached u"
  by (simp add: limit_reached_def)

lemma records_limit_take:
  assumes "\<forall>r. admitted u r = admitted t r" and "\<forall>r. record_to_dict u r = record_to_dict t r"
    and "limit (cfg u) = None" and "limit (cfg t) = Some n" and "record_count t < n"
    and "record_count u = record_count t" and "insert_count u = insert_count t" and "n \<noteq> 0"
  shows "fst (records t rs) = fst (records u (take (nat (n - record_count t)) rs)) \<and>
         snd (snd (records t rs)) = snd (snd (records u (take (nat (n - record_count t)) rs))) \<and>
         record_count (fst (snd (records t rs))) =
           record_count (fst (snd (records u (take (nat (n - record_count t)) rs)))) \<and>
         insert_count (fst (snd (records t rs))) =
           insert_count (fst (snd (records u (take (nat (n - record_count t)) rs))))"
  using assms
proof (induction rs arbitrary: t u)
  case Nil
  then show ?case by (simp add: records.simps)
next
  case (Cons r rs)
  let ?k = "nat (n - record_count t)"
  let ?t1 = "t\<lparr>record_count := record_count t + 1\<rparr>"
  let ?t2 = "t\<lparr>record_count := record_count t + 1, insert_count := insert_count t + 1\<rparr>"
  let ?u1 = "u\<lparr>record_count := record_count u + 1\<rparr>"
  let ?u2 = "u\<lparr>record_count := record_count u + 1, insert_count := insert_count u + 1\<rparr>"
  have k: "take ?k (r # rs) = r # take (nat (n - (record_count t + 1))) rs"
  proof -
    have "?k = Suc (nat (n - (record_count t + 1)))" using Cons.prems by arith
    then show ?thesis by simp
  qed
  have nl: "\<not> limit_reached ?u1"
    using Cons.prems(3) by (simp add: limit_reached_def)
  have au: "admitted u r = admitted t r" and ru: "record_to_dict u r = record_to_dict t r"
    using Cons.prems by simp_all
  have cu: "record_count u = record_count t" "insert_count u = insert_count t"
    using Cons.prems by simp_all
  show ?case
  proof (cases "limit_reached ?t1")
    case True
    then have "record_count t + 1 \<ge> n" using Cons.prems by (simp add: limit_reached_def)
    then have z: "nat (n - (record_count t + 1)) = 0" by arith
    show ?thesis
      using True nl
      by (simp add: k z records_Cons[of t r] records_Cons[of u r] au ru cu records.simps(1)
          emit_parts split: sum.splits bool.splits)
  next
    case False
    then have lt: "record_count t + 1 < n" using Cons.prems by (auto simp: limit_reached_def)
    have i1: "fst (records ?t1 rs) = fst (records ?u1 (take (nat (n - record_count ?t1)) rs)) \<and>
         snd (snd (records ?t1 rs)) = snd (snd (records ?u1 (take (nat (n - record_count ?t1)) rs))) \<and>
         record_count (fst (snd (records ?t1 rs))) =
           record_count (fst (snd (records ?u1 (take (nat (n - record_count ?t1)) rs)))) \<and>
         insert_count (fst (snd (records ?t1 rs))) =
           insert_count (fst (snd (records ?u1 (take (nat (n - record_count ?t1)) rs))))"
      using Cons.prems lt by (intro Cons.IH) simp_all
    have i2: "fst (records ?t2 rs) = fst (records ?u2 (take (nat (n - record_count ?t2)) rs)) \<and>
         snd (snd (records ?t2 rs)) = snd (snd (records ?u2 (take (nat (n - record_count ?t2)) rs))) \<and>
         record_count (fst (snd (records ?t2 rs))) =
           record_count (fst (snd (records ?u2 (take (nat (n - record_count ?t2)) rs)))) \<and>
         insert_count (fst (snd (records ?t2 rs))) =
           insert_count (fst (snd (records ?u2 (take (nat (n - record_count ?t2)) rs))))"
      using Cons.prems lt by (intro Cons.IH) simp_all
    show ?thesis
      using False nl i1 i2
      by (simp add: k records_Cons[of t r] records_Cons[of u r] au ru cu emit_parts
          split: sum.splits bool.splits)
  qed
qed



text \<open>Why a run ends: at the end of the stream, at the limit, or at the record an
  exception is raised on; and it does not end before.\<close>

lemma records_stop_error:
  "records t rs = (evs, t', Some e) \<Longrightarrow>
   admitted t (rs ! length evs) = Inl e \<or>
   (admitted t (rs ! length evs) = Inr True \<and> record_to_dict t (rs ! length evs) = Inl e)"
proof (induction rs arbitrary: t evs)
  case Nil
  then show ?case by (simp add: records.simps)
next
  case (Cons r rs)
  let ?t1 = "t\<lparr>record_count := record_count t + 1\<rparr>"
  let ?t2 = "t\<lparr>record_count := record_count t + 1, insert_count := insert_count t + 1\<rparr>"
  show ?case
  proof (cases "admitted t r")
    case (Inl x)
    with Cons.prems show ?thesis by (auto simp: records_Cons)
  next
    case (Inr b)
    show ?thesis
    proof (cases b)
      case False
      with Inr Cons.prems obtain evs' where
        evs: "evs = Delete r # evs'" and
        rest: "(if limit_reached ?t1 then ([], ?t1, None) else records ?t1 rs) = (evs', t', Some e)"
        by (auto simp: records_Cons emit_eq)
      then have "records ?t1 rs = (evs', t', Some e)" by (auto split: if_splits)
      from Cons.IH[OF this] evs show ?thesis by simp
    next
      case True
      show ?thesis
      proof (cases "record_to_dict t r")
        case (Inl x)
        with Inr True Cons.prems show ?thesis by (auto simp: records_Cons)
      next
        case row: (Inr row)
        with Inr True Cons.prems obtain evs' where
          evs: "evs = Yield row # evs'" and
          rest: "(if limit_reached ?t1 then ([], ?t2, None) else records ?t2 rs) = (evs', t', Some e)"
          by (auto simp: records_Cons emit_eq)
        then have "records ?t2 rs = (evs', t', Some e)" by (auto split: if_splits)
        from Cons.IH[OF this] evs show ?thesis by simp
      qed
    qed
  qed
qed

lemma records_stop_none:
  "records t rs = (evs, t', None) \<Longrightarrow>
   length evs = length rs \<or>
   (0 < length evs \<and> limit_reached (t\<lparr>record_count := record_count t + int (length evs)\<rparr>))"
proof (induction rs arbitrary: t evs)
  case Nil
  then show ?case by (simp add: records.simps)
next
  case (Cons r rs)
  let ?t1 = "t\<lparr>record_count := record_count t + 1\<rparr>"
  let ?t2 = "t\<lparr>record_count := record_count t + 1, insert_count := insert_count t + 1\<rparr>"
  have shift: "\<And>u k. limit_reached (u\<lparr>record_count := record_count t + 1 + int k\<rparr>) \<Longrightarrow>
                 limit (cfg u) = limit (cfg t) \<Longrightarrow>
                 limit_reached (t\<lparr>record_count := record_count t + int (Suc k)\<rparr>)"
    by (simp add: limit_reached_def add.commute add.left_commute split: option.splits)
  show ?case
  proof (cases "admitted t r")
    case (Inl x)
    with Cons.prems show ?thesis by (auto simp: records_Cons)
  next
    case (Inr b)
    show ?thesis
    proof (cases b)
      case False
      with Inr Cons.prems obtain evs' where
        evs: "evs = Delete r # evs'" and
        rest: "(if limit_reached ?t1 then ([], ?t1, None) else records ?t1 rs) = (evs', t', None)"
        by (auto simp: records_Cons emit_eq)
      show ?thesis
      proof (cases "limit_reached ?t1")
        case lr: True
        with rest have "evs' = []" by simp
        with evs lr show ?thesis by simp
      next
        case nr: False
        with rest have "records ?t1 rs = (evs', t', None)" by simp
        from Cons.IH[OF this] have
          "length evs' = length rs \<or>
           (0 < length evs' \<and> limit_reached (?t1\<lparr>record_count := record_count ?t1 + int (length evs')\<rparr>))" .
        then show ?thesis
          using evs shift[where u = ?t1 and k = "length evs'"] by auto
      qed
    next
      case True
      show ?thesis
      proof (cases "record_to_dict t r")
        case (Inl x)
        with Inr True Cons.prems show ?thesis by (auto simp: records_Cons)
      next
        case row: (Inr row)
        with Inr True Cons.prems obtain evs' where
          evs: "evs = Yield row # evs'" and
          rest: "(if limit_reached ?t1 then ([], ?t2, None) else records ?t2 rs) = (evs', t', None)"
          by (auto simp: records_Cons emit_eq)
        show ?thesis
        proof (cases "limit_reached ?t1")
          case lr: True
          with rest have "evs' = []" by simp
          with evs lr show ?thesis by simp
        next
          case nr: False
          with rest have "records ?t2 rs = (evs', t', None)" by simp
          from Cons.IH[OF this] have
            "length evs' = length rs \<or>
             (0 < length evs' \<and> limit_reached (?t2\<lparr>record_count := record_count ?t2 + int (length evs')\<rparr>))" .
          then show ?thesis
            using evs shift[where u = ?t2 and k = "length evs'"] by auto
        qed
      qed
    qed
  qed
qed

lemma records_no_early_stop:
  "records t rs = (evs, t', err) \<Longrightarrow> 0 < j \<Longrightarrow>
   j < length evs + (if err = None then 0 else 1) \<Longrightarrow>
   \<not> limit_reached (t\<lparr>record_count := record_count t + int j\<rparr>)"
proof (induction rs arbitrary: t evs j)
  case Nil
  then show ?case by (simp add: records.simps)
next
  case (Cons r rs)
  let ?t1 = "t\<lparr>record_count := record_count t + 1\<rparr>"
  let ?t2 = "t\<lparr>record_count := record_count t + 1, insert_count := insert_count t + 1\<rparr>"
  have shift: "\<And>u k. \<not> limit_reached (u\<lparr>record_count := record_count t + 1 + int k\<rparr>) \<Longrightarrow>
                 limit (cfg u) = limit (cfg t) \<Longrightarrow>
                 \<not> limit_reached (t\<lparr>record_count := record_count t + int (Suc k)\<rparr>)"
    by (simp add: limit_reached_def add.commute add.left_commute split: option.splits)
  have step: "\<And>u evs'. records u rs = (evs', t', err) \<Longrightarrow> limit (cfg u) = limit (cfg t) \<Longrightarrow>
                record_count u = record_count t + 1 \<Longrightarrow> \<not> limit_reached ?t1 \<Longrightarrow>
                length evs = Suc (length evs') \<Longrightarrow>
                \<not> limit_reached (t\<lparr>record_count := record_count t + int j\<rparr>)"
  proof -
    fix u evs'
    assume run: "records u rs = (evs', t', err)" and l: "limit (cfg u) = limit (cfg t)"
      and c: "record_count u = record_count t + 1" and nr: "\<not> limit_reached ?t1"
      and len: "length evs = Suc (length evs')"
    show "\<not> limit_reached (t\<lparr>record_count := record_count t + int j\<rparr>)"
    proof (cases j)
      case 0
      with Cons.prems(2) show ?thesis by simp
    next
      case (Suc k)
      show ?thesis
      proof (cases k)
        case 0
        with Suc nr show ?thesis by simp
      next
        case (Suc k')
        have "\<not> limit_reached (u\<lparr>record_count := record_count u + int k\<rparr>)"
          using Cons.IH[OF run, of k] Cons.prems(3) Suc \<open>j = Suc k\<close> len by simp
        then show ?thesis
          using shift[where u = u and k = k] l c \<open>j = Suc k\<close> by simp
      qed
    qed
  qed
  show ?case
  proof (cases "admitted t r")
    case (Inl x)
    with Cons.prems show ?thesis by (auto simp: records_Cons)
  next
    case (Inr b)
    show ?thesis
    proof (cases b)
      case False
      with Inr Cons.prems(1) obtain evs' where
        evs: "evs = Delete r # evs'" and
        rest: "(if limit_reached ?t1 then ([], ?t1, None) else records ?t1 rs) = (evs', t', err)"
        by (auto simp: records_Cons emit_eq)
      show ?thesis
      proof (cases "limit_reached ?t1")
        case lr: True
        with rest have "evs' = []" "err = None" by simp_all
        with evs Cons.prems(2,3) show ?thesis by simp
      next
        case nr: False
        with rest have "records ?t1 rs = (evs', t', err)" by simp
        then show ?thesis using nr evs by (intro step[where u = ?t1 and evs' = evs']) simp_all
      qed
    next
      case True
      show ?thesis
      proof (cases "record_to_dict t r")
        case (Inl x)
        with Inr True Cons.prems show ?thesis by (auto simp: records_Cons)
      next
        case row: (Inr row)
        with Inr True Cons.prems(1) obtain evs' where
          evs: "evs = Yield row # evs'" and
          rest: "(if limit_reached ?t1 then ([], ?t2, None) else records ?t2 rs) = (evs', t', err)"
          by (auto simp: records_Cons emit_eq)
        show ?thesis
        proof (cases "limit_reached ?t1")
          case lr: True
          with rest have "evs' = []" "err = None" by simp_all
          with evs Cons.prems(2,3) show ?thesis by simp
        next
          case nr: False
          with rest have "records ?t2 rs = (evs', t', err)" by simp
          then show ?thesis using nr evs by (intro step[where u = ?t2 and evs' = evs']) simp_all
        qed
      qed
    qed
  qed
qed

section \<open>The example runs\<close>

lemma example_init_any:
  "init example_luigi (example_config\<lparr>limit := l\<rparr>) =
     Inr (example_task\<lparr>cfg := example_config\<lparr>limit := l\<rparr>\<rparr>)"
  by (simp add: init_def example_luigi_def example_config_def example_task_def dict_of_def
      regex_match_def is_upper_simps column_is_array_def table_def to_str_params_def
      params_def Let_def)

lemma example_task_simps [simp]:
  "cfg example_task = example_config"
  "record_count example_task = 0"
  "insert_count example_task = 0"
  by (simp_all add: example_task_def)

lemma example_config_limit [simp]: "limit example_config = None"
  by (simp add: example_config_def)

lemma example_admitted:
  "admitted example_task rec_verified = Inr True"
  "admitted example_task rec_draft = Inr False"
  "admitted example_task rec_unpublished = Inr False"
  "admitted example_task rec_no_irn = Inr True"
  "admitted example_task rec_no_flag = Inl AttributeError"
  by (simp_all add: example_defs admitted_def apply_filters_def is_web_publishable_def
        attr_def getattr_none_def lower_eq_y)

lemma example_rows:
  "record_to_dict example_task rec_verified =
     Inr [(''irn'', PInt 1),
          (''properties'', PDict [(''collector_note'', PStr ''rare specimen'')]),
          (''import_date'', PInt 20240101),
          (''locations'', PList [PStr ''Room 3''])]"
  "record_to_dict example_task rec_no_irn = Inl AttributeError"
  by (simp_all add: example_defs record_to_dict_def get_properties_def set_metadata_def
        attr_def getattr_none_def Let_def)

lemma example_limited [simp]:
  "admitted (example_task\<lparr>cfg := example_config\<lparr>limit := l\<rparr>\<rparr>) r = admitted example_task r"
  "record_to_dict (example_task\<lparr>cfg := example_config\<lparr>limit := l\<rparr>\<rparr>) r =
     record_to_dict example_task r"
  by (simp_all add: admitted_cfg record_to_dict_cfg)

lemmas run_defs =
  records_Cons records.simps(1) example_admitted example_rows limit_reached_def emit_def

lemma run1: "records example_task [rec_verified, rec_draft, rec_unpublished] =
     ([Yield [(''irn'', PInt 1),
              (''properties'', PDict [(''collector_note'', PStr ''rare specimen'')]),
              (''import_date'', PInt 20240101),
              (''locations'', PList [PStr ''Room 3''])],
       Delete rec_draft, Delete rec_unpublished],
      example_task\<lparr>record_count := 3, insert_count := 1\<rparr>, None)"
  by (simp add: run_defs)

lemma run2: "records (example_task\<lparr>cfg := example_config\<lparr>limit := Some 2\<rparr>\<rparr>)
     [rec_verified, rec_draft, rec_unpublished, rec_verified] =
     ([Yield [(''irn'', PInt 1),
              (''properties'', PDict [(''collector_note'', PStr ''rare specimen'')]),
              (''import_date'', PInt 20240101),
              (''locations'', PList [PStr ''Room 3''])],
       Delete rec_draft],
      example_task\<lparr>cfg := example_config\<lparr>limit := Some 2\<rparr>, record_count := 2, insert_count := 1\<rparr>,
      None)"
  by (simp add: run_defs)

lemma run3: "records example_task [rec_no_irn, rec_verified] =
     ([], example_task\<lparr>record_count := 1, insert_count := 1\<rparr>, Some AttributeError)"
  by (simp add: run_defs)

lemma run4: "records example_task [rec_no_flag, rec_verified] =
     ([], example_task\<lparr>record_count := 1\<rparr>, Some AttributeError)"
  by (simp add: run_defs)

lemma run5: "records example_task [rec_draft, rec_no_irn, rec_unpublished] =
     ([Delete rec_draft], example_task\<lparr>record_count := 2, insert_count := 1\<rparr>,
      Some AttributeError)"
  by (simp add: run_defs)

lemma run6: "records (example_task\<lparr>cfg := example_config\<lparr>limit := Some 2\<rparr>\<rparr>)
     [rec_draft, rec_no_irn, rec_verified] =
     ([Delete rec_draft],
      example_task\<lparr>cfg := example_config\<lparr>limit := Some 2\<rparr>, record_count := 2, insert_count := 1\<rparr>,
      Some AttributeError)"
  by (simp add: run_defs)

lemma run7: "records example_task [rec_no_irn, rec_verified, rec_draft] =
     ([], example_task\<lparr>record_count := 1, insert_count := 1\<rparr>, Some AttributeError)"
  by (simp add: run_defs)

section \<open>The field filters\<close>

lemma check_pairs_append:
  "check_pairs v (ps1 @ ps2) =
     (case check_pairs v ps1 of Inl e \<Rightarrow> Inl e | Inr False \<Rightarrow> Inr False | Inr True \<Rightarrow> check_pairs v ps2)"
  by (induction ps1) (auto split: sum.splits bool.splits)

lemma apply_filters_loop_append:
  "apply_filters_loop (rs1 @ rs2) r =
     (case apply_filters_loop rs1 r of
        Inl e \<Rightarrow> Inl e | Inr False \<Rightarrow> Inr False | Inr True \<Rightarrow> apply_filters_loop rs2 r)"
  by (induction rs1) (auto split: sum.splits bool.splits)

lemma check_pairs_True_iff:
  "check_pairs v ps = Inr True \<longleftrightarrow>
     (\<forall>(f_op, fv) \<in> set ps. \<exists>res. f_op v fv = Inr res \<and> truthy res)"
proof (induction ps)
  case Nil
  show ?case by simp
next
  case (Cons p ps)
  obtain f_op fv where p: "p = (f_op, fv)" by (cases p)
  show ?case
  proof (cases "f_op v fv")
    case (Inl e)
    then show ?thesis by (simp add: p)
  next
    case (Inr res)
    then show ?thesis using Cons.IH by (simp add: p)
  qed
qed

lemma apply_filters_loop_True_iff:
  "apply_filters_loop rules r = Inr True \<longleftrightarrow>
     (\<forall>(field, flts) \<in> set rules. \<forall>(f_op, fv) \<in> set flts.
        \<exists>res. f_op (getattr_none r field) fv = Inr res \<and> truthy res)"
proof (induction rules)
  case Nil
  show ?case by simp
next
  case (Cons rule rules)
  obtain field flts where rule: "rule = (field, flts)" by (cases rule)
  show ?case
  proof (cases "check_pairs (getattr_none r field) flts = Inr True")
    case True
    then show ?thesis
      using Cons.IH check_pairs_True_iff[of "getattr_none r field" flts] by (simp add: rule)
  next
    case False
    then have "apply_filters_loop (rule # rules) r \<noteq> Inr True"
      by (auto simp: rule split: sum.splits bool.splits)
    then show ?thesis
      using False check_pairs_True_iff[of "getattr_none r field" flts] by (simp add: rule)
  qed
qed

lemma getattr_none_absent:
  "map_of r field = None \<Longrightarrow> getattr_none (r @ [(field, PNone)]) name = getattr_none r name"
  by (auto simp: getattr_none_def map_add_def split: option.splits)

lemma apply_filters_loop_cong:
  "(\<And>name. getattr_none r' name = getattr_none r name) \<Longrightarrow>
   apply_filters_loop rules r' = apply_filters_loop rules r"
  by (induction rules) (auto split: sum.splits bool.splits)

text \<open>
  C6. The filter gate reads a field the record does not have as None: adding the
  attribute with the value None changes nothing. Where the rules before a pair pass, the
  pairs before it in its rule pass, and the pair's operator returns a false value, the
  gate returns False, whatever pairs and rules follow (operators that would raise
  included). A record that passes the publishability gate is admitted exactly when every
  pair of every rule returns a true value; a record that fails the publishability gate is
  rejected without the filters being evaluated.
\<close>

theorem filter_gate:
  "(map_of r field = None \<longrightarrow>
      apply_filters t (r @ [(field, PNone)]) = apply_filters t r) \<and>
   (filters (cfg t) = pre @ (field, ps1 @ (f_op, fv) # ps2) # post \<and>
    apply_filters_loop pre r = Inr True \<and>
    check_pairs (getattr_none r field) ps1 = Inr True \<and>
    f_op (getattr_none r field) fv = Inr res \<and> \<not> truthy res \<longrightarrow>
      apply_filters t r = Inr False) \<and>
   (is_web_publishable r = Inr True \<longrightarrow>
      (admitted t r = Inr True \<longleftrightarrow>
         (\<forall>(name, flts) \<in> set (filters (cfg t)). \<forall>(g, gv) \<in> set flts.
            \<exists>out. g (getattr_none r name) gv = Inr out \<and> truthy out))) \<and>
   (is_web_publishable r = Inr False \<longrightarrow> admitted t r = Inr False)"
proof (intro conjI impI)
  assume "map_of r field = None"
  then show "apply_filters t (r @ [(field, PNone)]) = apply_filters t r"
    unfolding apply_filters_def
    by (intro apply_filters_loop_cong getattr_none_absent)
next
  assume a: "filters (cfg t) = pre @ (field, ps1 @ (f_op, fv) # ps2) # post \<and>
    apply_filters_loop pre r = Inr True \<and>
    check_pairs (getattr_none r field) ps1 = Inr True \<and>
    f_op (getattr_none r field) fv = Inr res \<and> \<not> truthy res"
  then have "check_pairs (getattr_none r field) (ps1 @ (f_op, fv) # ps2) = Inr False"
    by (simp add: check_pairs_append)
  with a show "apply_filters t r = Inr False"
    by (simp add: apply_filters_def apply_filters_loop_append)
next
  assume "is_web_publishable r = Inr True"
  then show "admitted t r = Inr True \<longleftrightarrow>
         (\<forall>(name, flts) \<in> set (filters (cfg t)). \<forall>(g, gv) \<in> set flts.
            \<exists>out. g (getattr_none r name) gv = Inr out \<and> truthy out)"
    by (simp add: admitted_def apply_filters_def apply_filters_loop_True_iff)
next
  assume "is_web_publishable r = Inr False"
  then show "admitted t r = Inr False" by (simp add: admitted_def)
qed

theorem filter_gate_witness:
  "apply_filters example_task (rec_no_status @ [(''status'', PNone)]) =
     apply_filters example_task rec_no_status \<and>
   apply_filters example_task rec_no_status = Inr False \<and>
   apply_filters strict_task rec_draft = Inr False \<and>
   admitted example_task rec_verified = Inr True \<and>
   admitted strict_task rec_unpublished = Inr False"
proof -
  have a: "map_of rec_no_status ''status'' = None"
    by (simp add: example_defs)
  have b: "filters (cfg strict_task) =
             [] @ (''status'', [] @ (py_equals, PStr ''verified'') # [(py_raises, PNone)])
                  # [(''other'', [(py_raises, PNone)])] \<and>
           apply_filters_loop [] rec_draft = Inr True \<and>
           check_pairs (getattr_none rec_draft ''status'') [] = Inr True \<and>
           py_equals (getattr_none rec_draft ''status'') (PStr ''verified'') = Inr (PBool False) \<and>
           \<not> truthy (PBool False)"
    by (simp add: example_defs getattr_none_def)
  have c: "is_web_publishable rec_verified = Inr True"
    by (simp add: example_defs eval_defs)
  have d: "is_web_publishable rec_unpublished = Inr False"
    by (simp add: example_defs eval_defs)
  have e: "apply_filters example_task rec_no_status = Inr False"
    by (simp add: example_defs eval_defs)
  have f: "\<forall>(name, flts) \<in> set (filters (cfg example_task)). \<forall>(g, gv) \<in> set flts.
            \<exists>out. g (getattr_none rec_verified name) gv = Inr out \<and> truthy out"
    by (simp add: example_defs getattr_none_def)
  show ?thesis
    using filter_gate[where r = rec_no_status and field = "''status''" and t = example_task] a
      filter_gate[where r = rec_draft and t = strict_task and pre = "[]" and field = "''status''"
        and ?ps1.0 = "[]" and f_op = py_equals and fv = "PStr ''verified''"
        and ?ps2.0 = "[(py_raises, PNone)]" and post = "[(''other'', [(py_raises, PNone)])]"
        and res = "PBool False"] b
      filter_gate[where r = rec_verified and t = example_task] c f
      filter_gate[where r = rec_unpublished and t = strict_task] d e
    by simp
qed

section \<open>Rows and deletions\<close>

text \<open>
  C8 (as amended). Of a run of \<^verbatim>\<open>records\<close>, the events are one per record, in order, for
  the records the loop body completed on: for a record the admission check rejects the
  event is the call of \<^verbatim>\<open>delete_record\<close> on that record, never a row; for an admitted
  record it is the row of \<^verbatim>\<open>record_to_dict\<close>. The run ends without an exception only at
  the end of the stream or where the limit is reached, and not before. It ends with an
  exception exactly at a record on which the admission check or the transformation raises
  it: that record is counted and takes neither path, and no record after it is yielded or
  deleted.
\<close>

theorem one_path_per_record:
  assumes "records t rs = (evs, t', err)"
  shows "list_all2
           (\<lambda>r ev. (admitted t r = Inr False \<and> ev = Delete r) \<or>
                   (admitted t r = Inr True \<and>
                    (\<exists>row. record_to_dict t r = Inr row \<and> ev = Yield row)))
           (take (length evs) rs) evs \<and>
         record_count t' = record_count t + int (length evs) + (if err = None then 0 else 1) \<and>
         (err = None \<longrightarrow>
            length evs = length rs \<or>
            (0 < length evs \<and>
             limit_reached (t\<lparr>record_count := record_count t + int (length evs)\<rparr>))) \<and>
         (\<forall>e. err = Some e \<longrightarrow>
            length evs < length rs \<and>
            (admitted t (rs ! length evs) = Inl e \<or>
             (admitted t (rs ! length evs) = Inr True \<and>
              record_to_dict t (rs ! length evs) = Inl e))) \<and>
         (\<forall>j. 0 < j \<and> j < length evs + (if err = None then 0 else 1) \<longrightarrow>
            \<not> limit_reached (t\<lparr>record_count := record_count t + int j\<rparr>))"
proof -
  note ev = records_events[OF assms]
  have n: "err = None \<longrightarrow>
            length evs = length rs \<or>
            (0 < length evs \<and>
             limit_reached (t\<lparr>record_count := record_count t + int (length evs)\<rparr>))"
    using records_stop_none[of t rs evs t'] assms by blast
  have s: "\<forall>e. err = Some e \<longrightarrow>
            length evs < length rs \<and>
            (admitted t (rs ! length evs) = Inl e \<or>
             (admitted t (rs ! length evs) = Inr True \<and>
              record_to_dict t (rs ! length evs) = Inl e))"
  proof (intro allI impI)
    fix e
    assume e: "err = Some e"
    have "length evs < length rs" using ev e by simp
    then show "length evs < length rs \<and>
            (admitted t (rs ! length evs) = Inl e \<or>
             (admitted t (rs ! length evs) = Inr True \<and>
              record_to_dict t (rs ! length evs) = Inl e))"
      using records_stop_error[of t rs evs t' e] assms e by blast
  qed
  have l: "\<forall>j. 0 < j \<and> j < length evs + (if err = None then 0 else 1) \<longrightarrow>
            \<not> limit_reached (t\<lparr>record_count := record_count t + int j\<rparr>)"
    using records_no_early_stop[OF assms] by blast
  show ?thesis using ev n s l by blast
qed

theorem one_path_per_record_witness:
  "records example_task [rec_verified, rec_draft, rec_unpublished] =
     ([Yield [(''irn'', PInt 1),
              (''properties'', PDict [(''collector_note'', PStr ''rare specimen'')]),
              (''import_date'', PInt 20240101),
              (''locations'', PList [PStr ''Room 3''])],
       Delete rec_draft, Delete rec_unpublished],
      example_task\<lparr>record_count := 3, insert_count := 1\<rparr>, None) \<and>
   list_all2
     (\<lambda>r ev. (admitted example_task r = Inr False \<and> ev = Delete r) \<or>
             (admitted example_task r = Inr True \<and>
              (\<exists>row. record_to_dict example_task r = Inr row \<and> ev = Yield row)))
     [rec_verified, rec_draft, rec_unpublished]
     [Yield [(''irn'', PInt 1),
              (''properties'', PDict [(''collector_note'', PStr ''rare specimen'')]),
              (''import_date'', PInt 20240101),
              (''locations'', PList [PStr ''Room 3''])],
       Delete rec_draft, Delete rec_unpublished] \<and>
   records example_task [rec_draft, rec_no_irn, rec_unpublished] =
     ([Delete rec_draft], example_task\<lparr>record_count := 2, insert_count := 1\<rparr>,
      Some AttributeError) \<and>
   admitted example_task ([rec_draft, rec_no_irn, rec_unpublished] ! length [Delete rec_draft]) =
     Inr True \<and>
   record_to_dict example_task
     ([rec_draft, rec_no_irn, rec_unpublished] ! length [Delete rec_draft]) =
     Inl AttributeError \<and>
   \<not> limit_reached (example_task\<lparr>record_count := record_count example_task + int 1\<rparr>)"
proof -
  note a = one_path_per_record[OF run1]
  note b = one_path_per_record[OF run5]
  have l: "list_all2
     (\<lambda>r ev. (admitted example_task r = Inr False \<and> ev = Delete r) \<or>
             (admitted example_task r = Inr True \<and>
              (\<exists>row. record_to_dict example_task r = Inr row \<and> ev = Yield row)))
     [rec_verified, rec_draft, rec_unpublished]
     [Yield [(''irn'', PInt 1),
              (''properties'', PDict [(''collector_note'', PStr ''rare specimen'')]),
              (''import_date'', PInt 20240101),
              (''locations'', PList [PStr ''Room 3''])],
       Delete rec_draft, Delete rec_unpublished]"
    using a by simp
  have r: "admitted example_task ([rec_draft, rec_no_irn, rec_unpublished] ! length [Delete rec_draft]) =
     Inr True \<and>
   record_to_dict example_task
     ([rec_draft, rec_no_irn, rec_unpublished] ! length [Delete rec_draft]) =
     Inl AttributeError"
    using b example_admitted(4) by simp
  have "(0::nat) < 1 \<and> (1::nat) < length [Delete rec_draft] + (if Some AttributeError = None then 0 else 1)"
    by simp
  with b have nl: "\<not> limit_reached (example_task\<lparr>record_count := record_count example_task + int 1\<rparr>)"
    by blast
  show ?thesis using run1 run5 l r nl by blast
qed

text \<open>
  The claim as stated fails: the admitted record without \<^verbatim>\<open>irn\<close> is counted and is
  neither yielded nor deleted, and the record after it, which fails admission, is never
  deleted.
\<close>

theorem one_path_counterexample:
  "admitted example_task rec_no_irn = Inr True \<and>
   admitted example_task rec_unpublished = Inr False \<and>
   records example_task [rec_draft, rec_no_irn, rec_unpublished] =
     ([Delete rec_draft], example_task\<lparr>record_count := 2, insert_count := 1\<rparr>,
      Some AttributeError)"
  by (simp add: example_admitted run5)

section \<open>The limit\<close>

text \<open>
  C10 (as amended). On a task as constructed (no record counted yet), every record up to
  the end of the run is yielded or deleted, and a run ends with an exception exactly at a
  record on which the admission check or the transformation raises it. With a limit
  \<open>n > 0\<close> the run is the run without limit on the first \<open>n\<close> records of the stream:
  no record after the \<open>n\<close>-th is read and at most \<open>n\<close> records are counted; a run no
  exception ends counts \<open>min n (length rs)\<close> records, the \<open>n\<close>-th yielded or deleted
  like the others, and a run an exception ends stops before the \<open>n\<close>-th event. With the
  limit None or 0 no cap applies: a run no exception ends has read the whole stream.
\<close>

theorem limit_cap:
  assumes "init lib c = Inr t" and "records t rs = (evs, t', err)"
  shows "list_all2
           (\<lambda>r ev. (admitted t r = Inr False \<and> ev = Delete r) \<or>
                   (admitted t r = Inr True \<and>
                    (\<exists>row. record_to_dict t r = Inr row \<and> ev = Yield row)))
           (take (length evs) rs) evs \<and>
         record_count t' = int (length evs) + (if err = None then 0 else 1) \<and>
         (\<forall>e. err = Some e \<longrightarrow>
            length evs < length rs \<and>
            (admitted t (rs ! length evs) = Inl e \<or>
             (admitted t (rs ! length evs) = Inr True \<and>
              record_to_dict t (rs ! length evs) = Inl e))) \<and>
         (limit c = Some n \<and> 0 < n \<longrightarrow>
            evs = fst (records (t\<lparr>cfg := c\<lparr>limit := None\<rparr>\<rparr>) (take (nat n) rs)) \<and>
            err = snd (snd (records (t\<lparr>cfg := c\<lparr>limit := None\<rparr>\<rparr>) (take (nat n) rs))) \<and>
            record_count t' \<le> n \<and>
            (err = None \<longrightarrow>
               length evs = min (nat n) (length rs) \<and>
               record_count t' = int (min (nat n) (length rs))) \<and>
            (err \<noteq> None \<longrightarrow> length evs < min (nat n) (length rs))) \<and>
         (limit c = None \<or> limit c = Some 0 \<longrightarrow>
            (err = None \<longrightarrow> length evs = length rs \<and> record_count t' = int (length rs)))"
proof -
  note c = init_fields(3)[OF assms(1)] and z = init_fields(4)[OF assms(1)]
  note ev = records_events[OF assms(2)]
  have p1: "list_all2
           (\<lambda>r ev. (admitted t r = Inr False \<and> ev = Delete r) \<or>
                   (admitted t r = Inr True \<and>
                    (\<exists>row. record_to_dict t r = Inr row \<and> ev = Yield row)))
           (take (length evs) rs) evs"
    using ev by blast
  have p2: "record_count t' = int (length evs) + (if err = None then 0 else 1)"
    using ev z by simp
  have p3: "\<forall>e. err = Some e \<longrightarrow>
            length evs < length rs \<and>
            (admitted t (rs ! length evs) = Inl e \<or>
             (admitted t (rs ! length evs) = Inr True \<and>
              record_to_dict t (rs ! length evs) = Inl e))"
  proof (intro allI impI)
    fix e
    assume e: "err = Some e"
    have "length evs < length rs" using ev e by simp
    then show "length evs < length rs \<and>
            (admitted t (rs ! length evs) = Inl e \<or>
             (admitted t (rs ! length evs) = Inr True \<and>
              record_to_dict t (rs ! length evs) = Inl e))"
      using records_stop_error[of t rs evs t' e] assms(2) e by blast
  qed
  have p4: "limit c = Some n \<and> 0 < n \<longrightarrow>
            evs = fst (records (t\<lparr>cfg := c\<lparr>limit := None\<rparr>\<rparr>) (take (nat n) rs)) \<and>
            err = snd (snd (records (t\<lparr>cfg := c\<lparr>limit := None\<rparr>\<rparr>) (take (nat n) rs))) \<and>
            record_count t' \<le> n \<and>
            (err = None \<longrightarrow>
               length evs = min (nat n) (length rs) \<and>
               record_count t' = int (min (nat n) (length rs))) \<and>
            (err \<noteq> None \<longrightarrow> length evs < min (nat n) (length rs))"
  proof
    assume l: "limit c = Some n \<and> 0 < n"
    let ?u = "t\<lparr>cfg := c\<lparr>limit := None\<rparr>\<rparr>"
    have a: "\<forall>r. admitted ?u r = admitted t r"
      by (simp add: admitted_cfg c)
    have d: "\<forall>r. record_to_dict ?u r = record_to_dict t r"
      by (simp add: record_to_dict_cfg c)
    have eq: "fst (records t rs) = fst (records ?u (take (nat (n - record_count t)) rs)) \<and>
         snd (snd (records t rs)) = snd (snd (records ?u (take (nat (n - record_count t)) rs))) \<and>
         record_count (fst (snd (records t rs))) =
           record_count (fst (snd (records ?u (take (nat (n - record_count t)) rs)))) \<and>
         insert_count (fst (snd (records t rs))) =
           insert_count (fst (snd (records ?u (take (nat (n - record_count t)) rs))))"
      using l c z a d by (intro records_limit_take) simp_all
    have e1: "evs = fst (records ?u (take (nat n) rs))"
      using eq assms(2) z by simp
    have e2: "err = snd (snd (records ?u (take (nat n) rs)))"
      using eq assms(2) z by simp
    obtain u' where run: "records ?u (take (nat n) rs) = (evs, u', err)"
      using e1 e2 by (cases "records ?u (take (nat n) rs)") auto
    note evu = records_events[OF run]
    have b: "length evs + (if err = None then 0 else 1) \<le> min (nat n) (length rs)"
      using evu by simp
    have q1: "record_count t' \<le> n"
      using p2 b l by (auto split: if_splits)
    have q2: "err = None \<longrightarrow>
               length evs = min (nat n) (length rs) \<and>
               record_count t' = int (min (nat n) (length rs))"
    proof
      assume n: "err = None"
      then have len: "length evs = length (take (nat n) rs)"
        using records_no_limit[of ?u "take (nat n) rs" evs u'] run by simp
      then show "length evs = min (nat n) (length rs) \<and>
                 record_count t' = int (min (nat n) (length rs))"
        using p2 n by simp
    qed
    have q3: "err \<noteq> None \<longrightarrow> length evs < min (nat n) (length rs)"
      using b by (auto split: if_splits)
    show "evs = fst (records (t\<lparr>cfg := c\<lparr>limit := None\<rparr>\<rparr>) (take (nat n) rs)) \<and>
            err = snd (snd (records (t\<lparr>cfg := c\<lparr>limit := None\<rparr>\<rparr>) (take (nat n) rs))) \<and>
            record_count t' \<le> n \<and>
            (err = None \<longrightarrow>
               length evs = min (nat n) (length rs) \<and>
               record_count t' = int (min (nat n) (length rs))) \<and>
            (err \<noteq> None \<longrightarrow> length evs < min (nat n) (length rs))"
      using e1 e2 q1 q2 q3 by blast
  qed
  have p5: "limit c = None \<or> limit c = Some 0 \<longrightarrow>
            (err = None \<longrightarrow> length evs = length rs \<and> record_count t' = int (length rs))"
  proof (intro impI)
    assume l: "limit c = None \<or> limit c = Some 0" and e: "err = None"
    have len: "length evs = length rs"
      using records_no_limit[of t rs evs t'] l c e assms(2) by simp
    then show "length evs = length rs \<and> record_count t' = int (length rs)"
      using p2 e by simp
  qed
  show ?thesis using p1 p2 p3 p4 p5 by blast
qed

theorem limit_cap_witness:
  "records (example_task\<lparr>cfg := example_config\<lparr>limit := Some 2\<rparr>\<rparr>)
     [rec_verified, rec_draft, rec_unpublished, rec_verified] =
     ([Yield [(''irn'', PInt 1),
              (''properties'', PDict [(''collector_note'', PStr ''rare specimen'')]),
              (''import_date'', PInt 20240101),
              (''locations'', PList [PStr ''Room 3''])],
       Delete rec_draft],
      example_task\<lparr>cfg := example_config\<lparr>limit := Some 2\<rparr>, record_count := 2, insert_count := 1\<rparr>,
      None) \<and>
   record_count (example_task\<lparr>cfg := example_config\<lparr>limit := Some 2\<rparr>, record_count := 2,
                   insert_count := 1\<rparr>) =
     int (min (nat 2) (length [rec_verified, rec_draft, rec_unpublished, rec_verified])) \<and>
   records example_task [rec_verified, rec_draft, rec_unpublished] =
     ([Yield [(''irn'', PInt 1),
              (''properties'', PDict [(''collector_note'', PStr ''rare specimen'')]),
              (''import_date'', PInt 20240101),
              (''locations'', PList [PStr ''Room 3''])],
       Delete rec_draft, Delete rec_unpublished],
      example_task\<lparr>record_count := 3, insert_count := 1\<rparr>, None) \<and>
   record_count (example_task\<lparr>record_count := 3, insert_count := 1\<rparr>) =
     int (length [rec_verified, rec_draft, rec_unpublished]) \<and>
   records (example_task\<lparr>cfg := example_config\<lparr>limit := Some 2\<rparr>\<rparr>)
     [rec_draft, rec_no_irn, rec_verified] =
     ([Delete rec_draft],
      example_task\<lparr>cfg := example_config\<lparr>limit := Some 2\<rparr>, record_count := 2, insert_count := 1\<rparr>,
      Some AttributeError) \<and>
   length [Delete rec_draft] < min (nat 2) (length [rec_draft, rec_no_irn, rec_verified]) \<and>
   record_to_dict (example_task\<lparr>cfg := example_config\<lparr>limit := Some 2\<rparr>\<rparr>)
     ([rec_draft, rec_no_irn, rec_verified] ! length [Delete rec_draft]) = Inl AttributeError"
proof -
  have l1: "limit (example_config\<lparr>limit := Some 2\<rparr>) = Some 2 \<and> (0::int) < 2" by simp
  have l2: "limit example_config = None \<or> limit example_config = Some 0" by simp
  note a = limit_cap[OF example_init_any run2, of 2]
  note b = limit_cap[OF example_init run1, of 0]
  note d = limit_cap[OF example_init_any run6, of 2]
  have a': "record_count (example_task\<lparr>cfg := example_config\<lparr>limit := Some 2\<rparr>, record_count := 2,
                   insert_count := 1\<rparr>) =
     int (min (nat 2) (length [rec_verified, rec_draft, rec_unpublished, rec_verified]))"
    using a l1 by blast
  have b': "record_count (example_task\<lparr>record_count := 3, insert_count := 1\<rparr>) =
     int (length [rec_verified, rec_draft, rec_unpublished])"
    using b l2 by blast
  have d1: "length [Delete rec_draft] < min (nat 2) (length [rec_draft, rec_no_irn, rec_verified])"
    using d l1 by blast
  have "admitted (example_task\<lparr>cfg := example_config\<lparr>limit := Some 2\<rparr>\<rparr>)
          ([rec_draft, rec_no_irn, rec_verified] ! length [Delete rec_draft]) \<noteq> Inl AttributeError"
    by (simp add: example_admitted)
  with d have d2: "record_to_dict (example_task\<lparr>cfg := example_config\<lparr>limit := Some 2\<rparr>\<rparr>)
     ([rec_draft, rec_no_irn, rec_verified] ! length [Delete rec_draft]) = Inl AttributeError"
    by blast
  show ?thesis using run2 run1 run6 a' b' d1 d2 by blast
qed

text \<open>
  The claim as stated fails where a record raises: with the limit 2 the second record is
  counted and neither yielded nor deleted, and without a limit the stream is not read to
  its end.
\<close>

theorem limit_cap_counterexample:
  "records (example_task\<lparr>cfg := example_config\<lparr>limit := Some 2\<rparr>\<rparr>)
     [rec_draft, rec_no_irn, rec_verified] =
     ([Delete rec_draft],
      example_task\<lparr>cfg := example_config\<lparr>limit := Some 2\<rparr>, record_count := 2, insert_count := 1\<rparr>,
      Some AttributeError) \<and>
   limit (cfg example_task) = None \<and>
   records example_task [rec_no_irn, rec_verified, rec_draft] =
     ([], example_task\<lparr>record_count := 1, insert_count := 1\<rparr>, Some AttributeError)"
  by (simp add: run6 run7)

section \<open>A record without irn\<close>




section \<open>The transformed row\<close>

lemma set_metadata_other:
  "a \<noteq> snd m \<Longrightarrow> map_of (set_metadata t r d m) a = map_of d a"
  by (cases m) (simp add: set_metadata_def Let_def map_of_dict_set)


lemma foldl_set_metadata_other:
  "a \<notin> snd ` set ms \<Longrightarrow> map_of (foldl (set_metadata t r) d ms) a = map_of d a"
  by (induction ms arbitrary: d) (simp_all add: set_metadata_other)



lemma example_rows_more:
  "record_to_dict example_task rec_draft =
     Inr [(''irn'', PInt 2), (''properties'', PDict []), (''import_date'', PInt 20240101),
          (''locations'', PNone)]"
  "record_to_dict example_task rec_empty_location =
     Inr [(''irn'', PInt 6), (''properties'', PDict []), (''import_date'', PInt 20240101),
          (''locations'', PStr [])]"
  "record_to_dict example_task rec_zero_note =
     Inr [(''irn'', PInt 7), (''properties'', PDict []), (''import_date'', PInt 20240101),
          (''locations'', PNone)]"
  by (simp_all add: example_defs record_to_dict_def get_properties_def set_metadata_def
        attr_def getattr_none_def Let_def)

lemma example_admitted_more:
  "admitted example_task rec_empty_location = Inr True"
  "admitted example_task rec_zero_note = Inr True"
  by (simp_all add: example_defs admitted_def apply_filters_def is_web_publishable_def
        attr_def getattr_none_def lower_eq_y)




section \<open>The property bag\<close>

lemma get_properties_keys_acc:
  "fst ` set (foldl (\<lambda>d (ke_field, dataset_field).
              if truthy (getattr_none r ke_field)
              then dict_set dataset_field (getattr_none r ke_field) d else d) acc pfs) =
   fst ` set acc \<union> {a. \<exists>ke. (ke, a) \<in> set pfs \<and> truthy (getattr_none r ke)}"
proof (induction pfs arbitrary: acc)
  case Nil
  show ?case by simp
next
  case (Cons pf pfs)
  obtain ke al where pf: "pf = (ke, al)" by (cases pf)
  show ?case by (auto simp: pf Cons.IH keys_dict_set)
qed

lemma get_properties_distinct_acc:
  "distinct (map fst acc) \<Longrightarrow>
   distinct (map fst (foldl (\<lambda>d (ke_field, dataset_field).
              if truthy (getattr_none r ke_field)
              then dict_set dataset_field (getattr_none r ke_field) d else d) acc pfs))"
proof (induction pfs arbitrary: acc)
  case Nil
  then show ?case by simp
next
  case (Cons pf pfs)
  obtain ke al where pf: "pf = (ke, al)" by (cases pf)
  show ?case
  proof (cases "truthy (getattr_none r ke)")
    case True
    have "distinct (map fst (dict_set al (getattr_none r ke) acc))"
      using Cons.prems by (rule distinct_dict_set)
    from Cons.IH[OF this] True show ?thesis by (simp add: pf)
  next
    case False
    from Cons.IH[OF Cons.prems] False show ?thesis by (simp add: pf)
  qed
qed

lemma set_dict_set: "set (dict_set k v d) \<subseteq> insert (k, v) (set d)"
  by (induction d) auto

lemma get_properties_entries_acc:
  "set (foldl (\<lambda>d (ke_field, dataset_field).
              if truthy (getattr_none r ke_field)
              then dict_set dataset_field (getattr_none r ke_field) d else d) acc pfs) \<subseteq>
   set acc \<union> {(a, v). \<exists>ke. (ke, a) \<in> set pfs \<and> truthy v \<and> v = getattr_none r ke}"
proof (induction pfs arbitrary: acc)
  case Nil
  show ?case by simp
next
  case (Cons pf pfs)
  obtain ke al where pf: "pf = (ke, al)" by (cases pf)
  show ?case
  proof (cases "truthy (getattr_none r ke)")
    case True
    have s: "set (dict_set al (getattr_none r ke) acc) \<subseteq> insert (al, getattr_none r ke) (set acc)"
      by (rule set_dict_set)
    show ?thesis
    proof
      fix x
      assume "x \<in> set (foldl (\<lambda>d (ke_field, dataset_field).
              if truthy (getattr_none r ke_field)
              then dict_set dataset_field (getattr_none r ke_field) d else d) acc (pf # pfs))"
      then have "x \<in> set (foldl (\<lambda>d (ke_field, dataset_field).
              if truthy (getattr_none r ke_field)
              then dict_set dataset_field (getattr_none r ke_field) d else d)
              (dict_set al (getattr_none r ke) acc) pfs)"
        using True by (simp add: pf)
      then have "x \<in> set (dict_set al (getattr_none r ke) acc) \<union>
                 {(a, v). \<exists>ke. (ke, a) \<in> set pfs \<and> truthy v \<and> v = getattr_none r ke}"
        using Cons.IH[of "dict_set al (getattr_none r ke) acc"] by blast
      then show "x \<in> set acc \<union>
                 {(a, v). \<exists>ke. (ke, a) \<in> set (pf # pfs) \<and> truthy v \<and> v = getattr_none r ke}"
        using s True by (auto simp: pf)
    qed
  next
    case False
    show ?thesis
    proof
      fix x
      assume "x \<in> set (foldl (\<lambda>d (ke_field, dataset_field).
              if truthy (getattr_none r ke_field)
              then dict_set dataset_field (getattr_none r ke_field) d else d) acc (pf # pfs))"
      then have "x \<in> set (foldl (\<lambda>d (ke_field, dataset_field).
              if truthy (getattr_none r ke_field)
              then dict_set dataset_field (getattr_none r ke_field) d else d) acc pfs)"
        using False by (simp add: pf)
      then have "x \<in> set acc \<union>
                 {(a, v). \<exists>ke. (ke, a) \<in> set pfs \<and> truthy v \<and> v = getattr_none r ke}"
        using Cons.IH[of acc] by blast
      then show "x \<in> set acc \<union>
                 {(a, v). \<exists>ke. (ke, a) \<in> set (pf # pfs) \<and> truthy v \<and> v = getattr_none r ke}"
        by auto
    qed
  qed
qed

lemma get_properties_keys:
  "fst ` set (get_properties t r) =
     {a. \<exists>ke. (ke, a) \<in> set (property_fields t) \<and> truthy (getattr_none r ke)}"
  by (simp add: get_properties_def get_properties_keys_acc)

lemma get_properties_distinct: "distinct (map fst (get_properties t r))"
  by (simp add: get_properties_def get_properties_distinct_acc)

lemma get_properties_value:
  assumes "map_of (get_properties t r) a = Some v"
  shows "truthy v \<and> (\<exists>ke. (ke, a) \<in> set (property_fields t) \<and> v = getattr_none r ke)"
proof -
  have "(a, v) \<in> set (get_properties t r)" using assms by (rule map_of_SomeD)
  then have "(a, v) \<in> {(a, v). \<exists>ke. (ke, a) \<in> set (property_fields t) \<and> truthy v \<and>
                          v = getattr_none r ke}"
    using get_properties_entries_acc[of r "[]" "property_fields t"]
    unfolding get_properties_def by auto
  then show ?thesis by auto
qed

lemma row_properties:
  assumes "record_to_dict t r = Inr row" and "''properties'' \<notin> snd ` set (metadata_fields t)"
  shows "map_of row ''properties'' = Some (PDict (get_properties t r))"
proof -
  obtain irn where i: "attr r ''irn'' = Inr irn"
    using assms(1) by (cases "attr r ''irn''") (simp_all add: record_to_dict_def)
  have "row = foldl (set_metadata t r)
                 [(''irn'', irn), (''properties'', PDict (get_properties t r)),
                  (''import_date'', PInt (date (cfg t)))] (metadata_fields t)"
    using assms(1) i by (simp add: record_to_dict_def)
  then show ?thesis
    using foldl_set_metadata_other[OF assms(2)] by simp
qed

text \<open>
  C4 (as amended). For a constructed module, the keys of the \<^verbatim>\<open>properties\<close> mapping of a
  record are exactly the aliases of the property field mappings whose resolved value is
  true in Python's sense (None, an empty string or list, 0 and False are left out), each
  key once, with the resolved value of such a mapping; no key is a declared column name.
  The row holds this mapping under \<^verbatim>\<open>properties\<close> unless a metadata mapping has that
  alias.
\<close>

theorem properties_sparse:
  assumes "init lib c = Inr t"
  shows "fst ` set (get_properties t r) =
           {a. \<exists>ke. (ke, a) \<in> set (property_fields t) \<and> truthy (getattr_none r ke)} \<and>
         fst ` set (get_properties t r) \<inter> fst ` set (columns c) = {} \<and>
         distinct (map fst (get_properties t r)) \<and>
         (\<forall>a v. map_of (get_properties t r) a = Some v \<longrightarrow>
            truthy v \<and> (\<exists>ke. (ke, a) \<in> set (property_fields t) \<and> v = getattr_none r ke)) \<and>
         (record_to_dict t r = Inr row \<and> ''properties'' \<notin> snd ` set (metadata_fields t) \<longrightarrow>
            map_of row ''properties'' = Some (PDict (get_properties t r)))"
proof -
  have d: "fst ` set (get_properties t r) \<inter> fst ` set (columns c) = {}"
  proof -
    {
      fix a
      assume "a \<in> fst ` set (get_properties t r)"
      then obtain ke where "(ke, a) \<in> set (property_fields t)"
        unfolding get_properties_keys by blast
      then have "a \<notin> fst ` set (columns c)"
        unfolding init_fields(2)[OF assms] by simp
    }
    then show ?thesis by blast
  qed
  show ?thesis
    using get_properties_keys[of t r] d get_properties_distinct[of t r]
      get_properties_value[of t r] row_properties[of t r row]
    by blast
qed

theorem properties_sparse_witness:
  "fst ` set (get_properties example_task rec_verified) = {''collector_note''} \<and>
   map_of (get_properties example_task rec_verified) ''collector_note'' =
     Some (PStr ''rare specimen'') \<and>
   truthy (PStr ''rare specimen'') \<and>
   fst ` set (get_properties example_task rec_verified) \<inter> fst ` set (columns example_config) = {} \<and>
   map_of [(''irn'', PInt 1),
           (''properties'', PDict [(''collector_note'', PStr ''rare specimen'')]),
           (''import_date'', PInt 20240101),
           (''locations'', PList [PStr ''Room 3''])] ''properties'' =
     Some (PDict (get_properties example_task rec_verified))"
proof -
  have g: "get_properties example_task rec_verified = [(''collector_note'', PStr ''rare specimen'')]"
    by (simp add: example_defs get_properties_def getattr_none_def)
  have m: "''properties'' \<notin> snd ` set (metadata_fields example_task)"
    by (simp add: example_task_def)
  note w = properties_sparse[OF example_init, of rec_verified
        "[(''irn'', PInt 1),
           (''properties'', PDict [(''collector_note'', PStr ''rare specimen'')]),
           (''import_date'', PInt 20240101),
           (''locations'', PList [PStr ''Room 3''])]"]
  have k: "fst ` set (get_properties example_task rec_verified) = {''collector_note''}"
    by (simp add: g)
  have v: "map_of (get_properties example_task rec_verified) ''collector_note'' =
             Some (PStr ''rare specimen'')"
    by (simp add: g)
  from w v have tr: "truthy (PStr ''rare specimen'')" by blast
  from w have dj: "fst ` set (get_properties example_task rec_verified) \<inter>
                     fst ` set (columns example_config) = {}" by blast
  from w example_rows(1) m
  have pr: "map_of [(''irn'', PInt 1),
           (''properties'', PDict [(''collector_note'', PStr ''rare specimen'')]),
           (''import_date'', PInt 20240101),
           (''locations'', PList [PStr ''Room 3''])] ''properties'' =
     Some (PDict (get_properties example_task rec_verified))" by blast
  show ?thesis using k v tr dj pr by blast
qed

text \<open>
  The claim as stated fails on a value that is neither empty nor absent: the property
  field \<^verbatim>\<open>ColNote\<close> with the value 0 is left out of the mapping.
\<close>

theorem properties_sparse_counterexample:
  "admitted example_task rec_zero_note = Inr True \<and>
   (''ColNote'', ''collector_note'') \<in> set (property_fields example_task) \<and>
   map_of rec_zero_note ''ColNote'' = Some (PInt 0) \<and>
   get_properties example_task rec_zero_note = [] \<and>
   record_to_dict example_task rec_zero_note =
     Inr [(''irn'', PInt 7), (''properties'', PDict []), (''import_date'', PInt 20240101),
          (''locations'', PNone)]"
  by (simp add: example_admitted_more example_rows_more)
     (simp add: example_task_def rec_zero_note_def get_properties_def getattr_none_def)

section \<open>Column types and indexes\<close>

lemma starts_with_iff: "starts_with s p \<longleftrightarrow> (\<exists>q. s = p @ q)"
  by (induction s p rule: starts_with.induct) auto

lemma str_contains_iff: "str_contains s sub \<longleftrightarrow> (\<exists>p q. s = p @ sub @ q)"
proof (induction s)
  case Nil
  show ?case by auto
next
  case (Cons c cs)
  show ?case
  proof
    assume "str_contains (c # cs) sub"
    then consider "starts_with (c # cs) sub" | "str_contains cs sub" by auto
    then show "\<exists>p q. c # cs = p @ sub @ q"
    proof cases
      case 1
      then obtain q where "c # cs = sub @ q" by (auto simp: starts_with_iff)
      then have "c # cs = [] @ sub @ q" by simp
      then show ?thesis by blast
    next
      case 2
      then obtain p q where "cs = p @ sub @ q" using Cons.IH by blast
      then have "c # cs = (c # p) @ sub @ q" by simp
      then show ?thesis by blast
    qed
  next
    assume "\<exists>p q. c # cs = p @ sub @ q"
    then obtain p q where e: "c # cs = p @ sub @ q" by blast
    show "str_contains (c # cs) sub"
    proof (cases p)
      case Nil
      then have "starts_with (c # cs) sub" using e by (auto simp: starts_with_iff)
      then show ?thesis by simp
    next
      case (Cons a p')
      then have "cs = p' @ sub @ q" using e by simp
      then have "str_contains cs sub" using Cons.IH by blast
      then show ?thesis by simp
    qed
  qed
qed

lemma not_upper_bracket: "\<not> is_upper CHR ''[''"
  by (simp add: is_upper_def upper_letters_def)

lemma regex_match_array:
  assumes "regex_match d = Some g"
  shows "column_is_array g \<longleftrightarrow>
           (\<exists>letters rest. letters \<noteq> [] \<and> list_all is_upper letters \<and> d = letters @ ''[]'' @ rest)"
proof -
  let ?u = "takeWhile is_upper d" and ?w = "dropWhile is_upper d"
  have ne: "?u \<noteq> []" and g: "g = ?u @ (if starts_with ?w ''[]'' then ''[]'' else [])"
    using assms by (auto simp: regex_match_def Let_def split: if_splits)
  have up: "list_all is_upper ?u"
    by (simp add: list_all_iff) (meson set_takeWhileD)
  have d: "d = ?u @ ?w" by simp
  show ?thesis
  proof
    assume "column_is_array g"
    then obtain p q where pq: "g = p @ ''[]'' @ q"
      by (auto simp: column_is_array_def str_contains_iff)
    have "starts_with ?w ''[]''"
    proof (rule ccontr)
      assume "\<not> starts_with ?w ''[]''"
      then have "?u = p @ ''[]'' @ q" using g pq by simp
      then have "CHR ''['' \<in> set ?u" by (metis in_set_conv_decomp append_Cons)
      then have "is_upper CHR ''[''" using up by (simp add: list_all_iff)
      then show False by (simp add: not_upper_bracket)
    qed
    then obtain rest where "?w = ''[]'' @ rest" by (auto simp: starts_with_iff)
    then have "d = ?u @ ''[]'' @ rest" using d by metis
    then show "\<exists>letters rest. letters \<noteq> [] \<and> list_all is_upper letters \<and> d = letters @ ''[]'' @ rest"
      using ne up by blast
  next
    assume "\<exists>letters rest. letters \<noteq> [] \<and> list_all is_upper letters \<and> d = letters @ ''[]'' @ rest"
    then obtain letters rest where l: "letters \<noteq> []" "list_all is_upper letters"
      and e: "d = letters @ ''[]'' @ rest" by blast
    have u: "?u = letters"
      using l(2) by (simp add: e takeWhile_append2 list_all_iff not_upper_bracket)
    have w: "?w = ''[]'' @ rest"
      using l(2) by (simp add: e dropWhile_append2 list_all_iff not_upper_bracket)
    have "g = letters @ ''[]''" using g u w by (simp add: starts_with_iff)
    then have "g = letters @ ''[]'' @ []" by simp
    then show "column_is_array g"
      unfolding column_is_array_def str_contains_iff by blast
  qed
qed

lemma get_column_types_all2:
  "get_column_types cols = Inr cts \<Longrightarrow>
   list_all2 (\<lambda>(n, d) (n', g). n' = n \<and> regex_match d = Some g) cols cts"
proof (induction cols arbitrary: cts)
  case Nil
  then show ?case by simp
next
  case (Cons col cols)
  obtain n d where col: "col = (n, d)" by (cases col)
  from Cons.prems obtain g cts' where
    "regex_match d = Some g" "get_column_types cols = Inr cts'" "cts = (n, g) # cts'"
    by (auto simp: col split: option.splits sum.splits)
  then show ?case using Cons.IH[of cts'] by (simp add: col)
qed

lemma index_statements_map:
  "index_statements tbl cts =
     map (\<lambda>(n, g). CreateIndex tbl (if column_is_array g then ''GIN'' else ''BTREE'') n)
       (filter (\<lambda>(n, g). n \<noteq> ''irn'' \<and> n \<noteq> ''properties'') cts)"
  by (induction tbl cts rule: index_statements.induct) auto

lemma index_statements_skip:
  "CreateIndex tbl' idx ''irn'' \<notin> set (index_statements tbl cts) \<and>
   CreateIndex tbl' idx ''properties'' \<notin> set (index_statements tbl cts)"
  by (induction tbl cts rule: index_statements.induct) auto

lemma init_array_fields:
  "init lib c = Inr t \<Longrightarrow>
   \<exists>cts. get_column_types (columns c) = Inr cts \<and>
         array_fields t = map fst (filter (\<lambda>(n, g). column_is_array g) cts)"
  by (auto simp: init_def Let_def split: sum.splits prod.splits)

lemma example_indexes:
  "ensure_indexes example_task =
     Inr [CreateIndex ''catalogue'' ''BTREE'' ''created'',
          CreateIndex ''catalogue'' ''BTREE'' ''modified'',
          CreateIndex ''catalogue'' ''BTREE'' ''deleted'',
          CreateIndex ''catalogue'' ''BTREE'' ''import_date'',
          CreateIndex ''catalogue'' ''GIN'' ''locations'']"
  by (simp add: ensure_indexes_def example_task_def example_config_def regex_match_def
        is_upper_simps column_is_array_def table_def Let_def)

lemma varchar_init: "init example_luigi varchar_config = Inr varchar_task"
  by (simp add: init_def example_luigi_def example_config_def varchar_config_def
      varchar_task_def dict_of_def regex_match_def is_upper_simps column_is_array_def
      table_def to_str_params_def params_def Let_def)

text \<open>
  What the code computes: where \<^verbatim>\<open>ensure_indexes\<close> runs through, every column definition
  matches the regular expression, and a column is classified as an array exactly when its
  definition starts with one or more letters A to Z followed at once by \<^verbatim>\<open>[]\<close>; the
  statements executed are, in the order of the columns and for every column but \<^verbatim>\<open>irn\<close>
  and \<^verbatim>\<open>properties\<close>, one index creation with GIN for a column classified as an array
  and BTREE for any other; no statement names the column \<^verbatim>\<open>irn\<close> or \<^verbatim>\<open>properties\<close>.
\<close>

lemma index_strategy:
  assumes "ensure_indexes t = Inr stmts"
  shows "(\<exists>cts. get_column_types (columns (cfg t)) = Inr cts \<and>
            list_all2
              (\<lambda>(n, d) (n', g). n' = n \<and> regex_match d = Some g \<and>
                 (column_is_array g \<longleftrightarrow>
                    (\<exists>letters rest. letters \<noteq> [] \<and> list_all is_upper letters \<and>
                       d = letters @ ''[]'' @ rest)))
              (columns (cfg t)) cts \<and>
            stmts =
              map (\<lambda>(n, g). CreateIndex (table (cfg t))
                               (if column_is_array g then ''GIN'' else ''BTREE'') n)
                (filter (\<lambda>(n, g). n \<noteq> ''irn'' \<and> n \<noteq> ''properties'') cts)) \<and>
         (\<forall>tbl idx. CreateIndex tbl idx ''irn'' \<notin> set stmts \<and>
                    CreateIndex tbl idx ''properties'' \<notin> set stmts)"
proof -
  from assms obtain cts where c: "get_column_types (columns (cfg t)) = Inr cts"
    and s: "stmts = index_statements (table (cfg t)) cts"
    by (auto simp: ensure_indexes_def split: sum.splits)
  have a: "list_all2
              (\<lambda>(n, d) (n', g). n' = n \<and> regex_match d = Some g \<and>
                 (column_is_array g \<longleftrightarrow>
                    (\<exists>letters rest. letters \<noteq> [] \<and> list_all is_upper letters \<and>
                       d = letters @ ''[]'' @ rest)))
              (columns (cfg t)) cts"
  proof (rule list_all2_mono[OF get_column_types_all2[OF c]])
    fix x y
    assume h: "(case x of (n, d) \<Rightarrow> \<lambda>(n', g). n' = n \<and> regex_match d = Some g) y"
    obtain n d where x: "x = (n, d)" by (cases x)
    obtain n' g where y: "y = (n', g)" by (cases y)
    from h have e: "n' = n" "regex_match d = Some g" by (simp_all add: x y)
    show "(case x of
           (n, d) \<Rightarrow> \<lambda>(n', g). n' = n \<and> regex_match d = Some g \<and>
                 (column_is_array g \<longleftrightarrow>
                    (\<exists>letters rest. letters \<noteq> [] \<and> list_all is_upper letters \<and>
                       d = letters @ ''[]'' @ rest))) y"
      unfolding x y prod.case using e regex_match_array[OF e(2)] by blast
  qed
  show ?thesis
    using c a s index_statements_map[of "table (cfg t)" cts]
      index_statements_skip[of _ _ "table (cfg t)" cts]
    by blast
qed

lemma index_strategy_example:
  "ensure_indexes example_task =
     Inr [CreateIndex ''catalogue'' ''BTREE'' ''created'',
          CreateIndex ''catalogue'' ''BTREE'' ''modified'',
          CreateIndex ''catalogue'' ''BTREE'' ''deleted'',
          CreateIndex ''catalogue'' ''BTREE'' ''import_date'',
          CreateIndex ''catalogue'' ''GIN'' ''locations''] \<and>
   CreateIndex ''catalogue'' ''BTREE'' ''irn'' \<notin>
     set [CreateIndex ''catalogue'' ''BTREE'' ''created'',
          CreateIndex ''catalogue'' ''BTREE'' ''modified'',
          CreateIndex ''catalogue'' ''BTREE'' ''deleted'',
          CreateIndex ''catalogue'' ''BTREE'' ''import_date'',
          CreateIndex ''catalogue'' ''GIN'' ''locations''] \<and>
   CreateIndex ''catalogue'' ''BTREE'' ''properties'' \<notin>
     set [CreateIndex ''catalogue'' ''BTREE'' ''created'',
          CreateIndex ''catalogue'' ''BTREE'' ''modified'',
          CreateIndex ''catalogue'' ''BTREE'' ''deleted'',
          CreateIndex ''catalogue'' ''BTREE'' ''import_date'',
          CreateIndex ''catalogue'' ''GIN'' ''locations'']"
  using index_strategy[OF example_indexes] example_indexes by blast

text \<open>
  C5. The claim: a column is classified as an array exactly when its type declaration
  contains the marker \<^verbatim>\<open>[]\<close>, and an array column gets a GIN index. The code tests the
  marker on the text the regular expression cuts out of the declaration, which keeps
  \<^verbatim>\<open>[]\<close> only right after the leading letters: the declaration \<^verbatim>\<open>VARCHAR(10)[]\<close>
  contains the marker and is cut to \<^verbatim>\<open>VARCHAR\<close>, so the column is no array field of the
  constructed module, \<^verbatim>\<open>ensure_indexes\<close> creates a BTREE index on it, and a single
  value of it is stored in the row without being made a list.
\<close>

theorem array_marker_lost:
  "str_contains ''VARCHAR(10)[]'' ''[]'' \<and>
   init example_luigi varchar_config = Inr varchar_task \<and>
   get_column_types (columns (cfg varchar_task)) =
     Inr [(''irn'', ''INTEGER''), (''properties'', ''JSONB''), (''locations'', ''TEXT[]''),
          (''tags'', ''VARCHAR'')] \<and>
   \<not> column_is_array ''VARCHAR'' \<and>
   array_fields varchar_task = [''locations''] \<and>
   ensure_indexes varchar_task =
     Inr [CreateIndex ''catalogue'' ''GIN'' ''locations'',
          CreateIndex ''catalogue'' ''BTREE'' ''tags''] \<and>
   record_to_dict varchar_task rec_tagged =
     Inr [(''irn'', PInt 8), (''properties'', PDict []), (''import_date'', PInt 20240101),
          (''locations'', PNone), (''tags'', PStr ''type specimen'')]"
  by (simp add: varchar_init)
     (simp add: ensure_indexes_def varchar_task_def varchar_config_def example_config_def
        regex_match_def is_upper_simps column_is_array_def table_def Let_def
        record_to_dict_def get_properties_def set_metadata_def attr_def getattr_none_def
        rec_tagged_def)

end
